theory Spec2Isabelle
  imports Complex_Main "HOL-Library.Multiset" "HOL-Library.Stream"
begin

section \<open>Data model of board_generator.py\<close>

text \<open>
  A hex tile is the dictionary with the keys \<open>position\<close>, \<open>terrain\<close> and \<open>number\<close>
  that \<open>_generate_candidate_board\<close> builds; \<open>number\<close> is \<open>None\<close> or a Python int.
  A board is the list of these dictionaries.
\<close>

record hex =
  position :: int
  terrain :: string
  number :: "int option"

type_synonym board = "hex list"

text \<open>The exceptions the modelled methods can raise.\<close>

datatype error = AttributeError | IndexError

text \<open>
  The instance attributes of \<open>CatanBoardGenerator\<close> that \<open>setup_distribution\<close> may or
  may not assign: \<open>None\<close> stands for an attribute that was never set, so that reading
  it raises \<open>AttributeError\<close>. The adjacency dictionary is the same for every instance
  and is a constant below.
\<close>

record generator =
  expansion :: string
  terrains :: "string list option"
  numbers :: "int list option"

definition setup_distribution :: "generator \<Rightarrow> string \<Rightarrow> generator" where
  "setup_distribution self name =
    (if name = ''base'' then
       self\<lparr>terrains := Some
          [''Forest'', ''Forest'', ''Forest'', ''Forest'',
           ''Pasture'', ''Pasture'', ''Pasture'', ''Pasture'',
           ''Field'', ''Field'', ''Field'', ''Field'',
           ''Hill'', ''Hill'', ''Hill'',
           ''Mountain'', ''Mountain'', ''Mountain'',
           ''Desert''],
         numbers := Some [2, 3, 3, 4, 4, 5, 5, 6, 6, 8, 8, 9, 9, 10, 10, 11, 11, 12]\<rparr>
     else if name = ''5-6player'' then
       self\<lparr>terrains := Some
          [''Forest'', ''Forest'', ''Forest'', ''Forest'', ''Forest'', ''Forest'',
           ''Pasture'', ''Pasture'', ''Pasture'', ''Pasture'', ''Pasture'', ''Pasture'',
           ''Field'', ''Field'', ''Field'', ''Field'', ''Field'', ''Field'',
           ''Hill'', ''Hill'', ''Hill'', ''Hill'', ''Hill'',
           ''Mountain'', ''Mountain'', ''Mountain'', ''Mountain'', ''Mountain'',
           ''Desert'', ''Desert''],
         numbers := Some [2, 2, 3, 3, 3, 4, 4, 4, 5, 5, 5, 6, 6, 6,
                          8, 8, 8, 9, 9, 9, 10, 10, 10, 11, 11, 11, 12, 12]\<rparr>
     else if name = ''custom'' then
       self\<lparr>terrains := Some
          [''Forest'', ''Forest'', ''Forest'',
           ''Pasture'', ''Pasture'', ''Pasture'',
           ''Field'', ''Field'', ''Field'',
           ''Hill'', ''Hill'', ''Hill'',
           ''Mountain'', ''Mountain'', ''Mountain'',
           ''Gold'', ''Gold'', ''Gold'',
           ''Desert''],
         numbers := Some [2, 3, 3, 4, 4, 5, 5, 6, 6, 8, 8, 9, 9, 10, 10, 11, 11, 12]\<rparr>
     else self)"

text \<open>The constructor \<open>__init__\<close>: store the name, then call \<open>setup_distribution\<close>.\<close>

definition CatanBoardGenerator :: "string \<Rightarrow> generator" where
  "CatanBoardGenerator name =
     setup_distribution \<lparr>expansion = name, terrains = None, numbers = None\<rparr> name"

subsection \<open>The adjacency dictionary and the pip table\<close>

definition adjacency :: "(int \<times> int list) list" where
  "adjacency =
    [(0, [1, 3, 4]),
     (1, [0, 2, 4, 5]),
     (2, [1, 5, 6]),
     (3, [0, 4, 7, 8]),
     (4, [0, 1, 3, 5, 8, 9]),
     (5, [1, 2, 4, 6, 9, 10]),
     (6, [2, 5, 10, 11]),
     (7, [3, 8, 12]),
     (8, [3, 4, 7, 9, 12, 13]),
     (9, [4, 5, 8, 10, 13, 14]),
     (10, [5, 6, 9, 11, 14, 15]),
     (11, [6, 10, 15]),
     (12, [7, 8, 13, 16]),
     (13, [8, 9, 12, 14, 16, 17]),
     (14, [9, 10, 13, 15, 17, 18]),
     (15, [10, 11, 14, 18]),
     (16, [12, 13, 17]),
     (17, [13, 14, 16, 18]),
     (18, [14, 15, 17])]"

text \<open>\<open>self.adjacency.get(pos, [])\<close>\<close>

definition adjacency_get :: "int \<Rightarrow> int list" where
  "adjacency_get pos = (case map_of adjacency pos of Some l \<Rightarrow> l | None \<Rightarrow> [])"

definition pip_map :: "(int \<times> int) list" where
  "pip_map = [(2, 1), (3, 2), (4, 3), (5, 4), (6, 5), (8, 5), (9, 4), (10, 3), (11, 2), (12, 1)]"

definition get_pip_count :: "int option \<Rightarrow> int" where
  "get_pip_count n =
     (case n of
        None \<Rightarrow> 0
      | Some k \<Rightarrow> (case map_of pip_map k of Some p \<Rightarrow> p | None \<Rightarrow> 0))"

subsection \<open>The random source and \<open>random.shuffle\<close>\<close>

text \<open>
  The random source is an infinite stream of raw draws; \<open>randbelow g n\<close> reduces the
  next draw modulo \<open>n\<close> and advances the stream. \<open>random.shuffle\<close> is the standard
  library's loop \<open>for i in reversed(range(1, len(x))): j = randbelow(i + 1);
  x[i], x[j] = x[j], x[i]\<close>. Every theorem below holds for every stream.
\<close>

type_synonym rng = "nat stream"

definition randbelow :: "rng \<Rightarrow> nat \<Rightarrow> nat \<times> rng" where
  "randbelow g n = (shd g mod n, stl g)"

fun shuffle_loop :: "nat \<Rightarrow> 'a list \<Rightarrow> rng \<Rightarrow> 'a list \<times> rng" where
  "shuffle_loop 0 x g = (x, g)"
| "shuffle_loop (Suc i) x g =
     (case randbelow g (Suc i + 1) of
        (j, g') \<Rightarrow> shuffle_loop i (x[Suc i := x ! j, j := x ! Suc i]) g')"

definition shuffle :: "'a list \<Rightarrow> rng \<Rightarrow> 'a list \<times> rng" where
  "shuffle x g = shuffle_loop (length x - 1) x g"

subsection \<open>Candidate sampling\<close>

text \<open>
  The \<open>enumerate\<close> loop of \<open>_generate_candidate_board\<close>: \<open>i\<close> is the running index,
  \<open>k\<close> is \<open>number_index\<close>, \<open>acc\<close> the board built so far. Reading
  \<open>shuffled_numbers[number_index]\<close> past the end raises \<open>IndexError\<close>.
\<close>

fun assign_loop :: "nat \<Rightarrow> string list \<Rightarrow> int list \<Rightarrow> nat \<Rightarrow> board \<Rightarrow> error + board" where
  "assign_loop i [] nums k acc = Inr acc"
| "assign_loop i (t # ts) nums k acc =
     (if t = ''Desert'' then
        assign_loop (Suc i) ts nums k
          (acc @ [\<lparr>position = int i, terrain = t, number = None\<rparr>])
      else if k < length nums then
        assign_loop (Suc i) ts nums (Suc k)
          (acc @ [\<lparr>position = int i, terrain = t, number = Some (nums ! k)\<rparr>])
      else Inl IndexError)"

definition generate_candidate_board :: "generator \<Rightarrow> rng \<Rightarrow> error + (board \<times> rng)" where
  "generate_candidate_board self g =
     (case terrains self of
        None \<Rightarrow> Inl AttributeError
      | Some ts \<Rightarrow>
          (case shuffle ts g of
             (shuffled_terrains, g1) \<Rightarrow>
               (case numbers self of
                  None \<Rightarrow> Inl AttributeError
                | Some ns \<Rightarrow>
                    (case shuffle ns g1 of
                       (shuffled_numbers, g2) \<Rightarrow>
                         (case assign_loop 0 shuffled_terrains shuffled_numbers 0 [] of
                            Inl e \<Rightarrow> Inl e
                          | Inr b \<Rightarrow> Inr (b, g2))))))"

subsection \<open>Hard constraints\<close>

text \<open>
  \<open>high_value_positions\<close> is a Python set; the model keeps its elements as a
  duplicate-free list. The loop over it returns \<open>False\<close> at the first position with a
  neighbour in the set.
\<close>

definition high_value_positions :: "board \<Rightarrow> int list" where
  "high_value_positions b =
     remdups (map position (filter (\<lambda>h. number h \<in> set [Some 6, Some 8]) b))"

fun high_numbers_loop :: "int list \<Rightarrow> int list \<Rightarrow> bool" where
  "high_numbers_loop [] hv = True"
| "high_numbers_loop (pos # rest) hv =
     (if list_ex (\<lambda>adj_pos. adj_pos \<in> set hv) (adjacency_get pos) then False
      else high_numbers_loop rest hv)"

definition check_adjacent_high_numbers :: "board \<Rightarrow> bool" where
  "check_adjacent_high_numbers b = high_numbers_loop (high_value_positions b) (high_value_positions b)"

definition edge_positions :: "int set" where
  "edge_positions = {0, 1, 2, 3, 6, 7, 11, 12, 16, 17, 18}"

fun check_desert_placement :: "board \<Rightarrow> bool" where
  "check_desert_placement [] = True"
| "check_desert_placement (hex_tile # rest) =
     (if terrain hex_tile = ''Desert'' \<and> position hex_tile \<in> edge_positions then False
      else check_desert_placement rest)"

subsection \<open>Floating-point arithmetic\<close>

text \<open>
  Python floats are IEEE doubles, not real numbers: every operation rounds, and a sum
  depends on the order of its terms. The float arithmetic of the interpreter is
  therefore a parameter of the model: a record of the operations that the code applies
  to floats, over a type \<open>'f\<close> of float values. Every definition below that touches a
  float takes the record as its first argument. An int operand of a mixed operation is
  converted first (\<open>float_of_int\<close>), as Python does; \<open>int_truediv\<close> is \<open>/\<close> on two
  ints, \<open>fsum\<close> the builtin \<open>sum\<close> on floats, \<open>fpow\<close> is \<open>**\<close> with an int
  exponent, \<open>fsqrt\<close> is \<open>math.sqrt\<close>, \<open>flt\<close> is \<open><\<close> and \<open>finf\<close> is
  \<open>float('inf')\<close>. The divisors at the call sites of \<open>/\<close> are a list length under the
  guard \<open>if not resource_pips\<close> and the literal 2, never 0.
\<close>

record 'f float_ops =
  float_of_int :: "int \<Rightarrow> 'f"
  fadd :: "'f \<Rightarrow> 'f \<Rightarrow> 'f"
  fsub :: "'f \<Rightarrow> 'f \<Rightarrow> 'f"
  fmul :: "'f \<Rightarrow> 'f \<Rightarrow> 'f"
  fdiv :: "'f \<Rightarrow> 'f \<Rightarrow> 'f"
  int_truediv :: "int \<Rightarrow> int \<Rightarrow> 'f"
  fpow :: "'f \<Rightarrow> int \<Rightarrow> 'f"
  fsum :: "'f list \<Rightarrow> 'f"
  fsqrt :: "'f \<Rightarrow> 'f"
  flt :: "'f \<Rightarrow> 'f \<Rightarrow> bool"
  finf :: "'f"

text \<open>A Python number: \<open>_score_resource_balance\<close> returns the int 0 or a float.\<close>

datatype 'f pynum = PyInt int | PyFloat 'f

subsection \<open>Scoring\<close>

text \<open>
  The entries of the adjacency dictionary are non-negative, so \<open>board[adj_pos]\<close> under
  the guard \<open>adj_pos < len(board)\<close> is the element at index \<open>nat adj_pos\<close>.
\<close>

definition same_terrain_count :: "board \<Rightarrow> nat \<Rightarrow> hex \<Rightarrow> int" where
  "same_terrain_count b pos hex_tile =
     int (length (filter
       (\<lambda>adj_pos. adj_pos < int (length b) \<and> terrain (b ! nat adj_pos) = terrain hex_tile)
       (adjacency_get (int pos))))"

definition score_terrain_clustering :: "board \<Rightarrow> int" where
  "score_terrain_clustering b =
     fold (\<lambda>(pos, hex_tile) cluster_penalty.
        if terrain hex_tile = ''Desert'' then cluster_penalty
        else if same_terrain_count b pos hex_tile \<ge> 2
             then cluster_penalty + same_terrain_count b pos hex_tile
             else cluster_penalty)
       (enumerate 0 b) 0"

text \<open>
  The dictionary \<open>resource_pips\<close> keeps insertion order: an association list, where
  storing under an existing key replaces the value in place and a new key is appended.
\<close>

definition dict_get :: "(string \<times> int) list \<Rightarrow> string \<Rightarrow> int \<Rightarrow> int" where
  "dict_get d k dflt = (case map_of d k of Some v \<Rightarrow> v | None \<Rightarrow> dflt)"

fun dict_set :: "(string \<times> int) list \<Rightarrow> string \<Rightarrow> int \<Rightarrow> (string \<times> int) list" where
  "dict_set [] k v = [(k, v)]"
| "dict_set ((k', v') # d) k v =
     (if k' = k then (k, v) # d else (k', v') # dict_set d k v)"

definition resource_pips :: "board \<Rightarrow> (string \<times> int) list" where
  "resource_pips b =
     fold (\<lambda>hex_tile d.
        if terrain hex_tile \<noteq> ''Desert''
        then dict_set d (terrain hex_tile)
               (dict_get d (terrain hex_tile) 0 + get_pip_count (number hex_tile))
        else d)
       b []"

definition score_resource_balance :: "'f float_ops \<Rightarrow> board \<Rightarrow> 'f pynum" where
  "score_resource_balance fo b =
     (let rp = resource_pips b in
      if rp = [] then PyInt 0
      else
        (let avg_pips = int_truediv fo (sum_list (map snd rp)) (int (length rp));
             variance =
               fdiv fo
                 (fsum fo (map (\<lambda>v. fpow fo (fsub fo (float_of_int fo v) avg_pips) 2)
                    (map snd rp)))
                 (float_of_int fo (int (length rp)))
         in PyFloat (fsqrt fo variance)))"

text \<open>\<open>if board[adj_pos]['number']\<close>: \<open>None\<close> and \<open>0\<close> are falsy.\<close>

definition truthy :: "int option \<Rightarrow> bool" where
  "truthy n = (n \<noteq> None \<and> n \<noteq> Some 0)"

definition pip_adjacency_inner :: "board \<Rightarrow> nat \<Rightarrow> int \<Rightarrow> int" where
  "pip_adjacency_inner b pos penalty =
     fold (\<lambda>adj_pos pen.
        if adj_pos < int (length b) \<and> truthy (number (b ! nat adj_pos))
        then (if get_pip_count (number (b ! nat adj_pos)) \<ge> 4 then pen + 1 else pen)
        else pen)
       (adjacency_get (int pos)) penalty"


text \<open>The loops of \<open>_score_pip_adjacency\<close> count in an int; \<open>penalty / 2\<close> is a float.\<close>

definition pip_adjacency_count :: "board \<Rightarrow> int" where
  "pip_adjacency_count b =
     fold (\<lambda>(pos, hex_tile) penalty.
        if number hex_tile = None then penalty
        else if get_pip_count (number hex_tile) < 4 then penalty
        else pip_adjacency_inner b pos penalty)
       (enumerate 0 b) 0"

definition score_pip_adjacency :: "'f float_ops \<Rightarrow> board \<Rightarrow> 'f" where
  "score_pip_adjacency fo b = int_truediv fo (pip_adjacency_count b) 2"

text \<open>
  \<open>_score_board\<close>: \<open>score = 0.0\<close>, then three times \<open>score += \<dots>\<close>. The products
  \<open>cluster * 10\<close> and \<open>0 * 5\<close> are int products; a float times an int is a float
  product.
\<close>

definition score_board :: "'f float_ops \<Rightarrow> board \<Rightarrow> 'f" where
  "score_board fo b =
     (let score0 = float_of_int fo 0;
          score1 = fadd fo score0 (float_of_int fo (score_terrain_clustering b * 10));
          score2 = fadd fo score1
            (case score_resource_balance fo b of
               PyInt n \<Rightarrow> float_of_int fo (n * 5)
             | PyFloat x \<Rightarrow> fmul fo x (float_of_int fo 5));
          score3 = fadd fo score2 (fmul fo (score_pip_adjacency fo b) (float_of_int fo 3))
      in score3)"

subsection \<open>The generation loop\<close>

text \<open>
  The \<open>for attempt in range(max_attempts)\<close> loop, with the iterations left as the
  recursion argument; \<open>continue\<close> is the recursive call with the state unchanged,
  \<open>break\<close> returns the state. The result is \<open>best_board\<close>, \<open>best_score\<close> and the
  random source after the loop. \<open>score < 50\<close> compares a float with an int, which is
  the comparison with the float 50.
\<close>

fun generate_loop ::
  "'f float_ops \<Rightarrow> generator \<Rightarrow> nat \<Rightarrow> rng \<Rightarrow> board option \<Rightarrow> 'f \<Rightarrow>
     error + (board option \<times> 'f \<times> rng)" where
  "generate_loop fo self 0 g best_board best_score = Inr (best_board, best_score, g)"
| "generate_loop fo self (Suc n) g best_board best_score =
     (case generate_candidate_board self g of
        Inl e \<Rightarrow> Inl e
      | Inr (b, g') \<Rightarrow>
          if \<not> check_adjacent_high_numbers b
            then generate_loop fo self n g' best_board best_score
          else if \<not> check_desert_placement b
            then generate_loop fo self n g' best_board best_score
          else if flt fo (score_board fo b) best_score then
            (if flt fo (score_board fo b) (float_of_int fo 50)
               then Inr (Some b, score_board fo b, g')
             else generate_loop fo self n g' (Some b) (score_board fo b))
          else generate_loop fo self n g' best_board best_score)"

text \<open>
  \<open>best_score\<close> starts as \<open>float('inf')\<close>.
  \<open>return best_board if best_board else self._generate_candidate_board()\<close>: the test
  is Python truthiness, false for \<open>None\<close> and for the empty list.
  \<open>range(max_attempts)\<close> is empty for a non-positive argument.
\<close>

definition generate_board ::
  "'f float_ops \<Rightarrow> generator \<Rightarrow> int \<Rightarrow> rng \<Rightarrow> error + (board \<times> rng)" where
  "generate_board fo self max_attempts g =
     (case generate_loop fo self (nat max_attempts) g None (finf fo) of
        Inl e \<Rightarrow> Inl e
      | Inr (best_board, best_score, g') \<Rightarrow>
          (case best_board of
             Some b \<Rightarrow> if b \<noteq> [] then Inr (b, g') else generate_candidate_board self g'
           | None \<Rightarrow> generate_candidate_board self g'))"

text \<open>The public entry point: construct the generator for a name, then generate.\<close>

definition generate ::
  "'f float_ops \<Rightarrow> string \<Rightarrow> int \<Rightarrow> rng \<Rightarrow> error + (board \<times> rng)" where
  "generate fo name max_attempts g =
     generate_board fo (CatanBoardGenerator name) max_attempts g"

subsection \<open>Exact arithmetic\<close>

text \<open>
  One instance of the float operations: exact arithmetic on the real numbers, with a
  value for infinity and a value for an undefined result.
\<close>

datatype xreal = Num real | PosInf | NaN

fun x_lift2 :: "(real \<Rightarrow> real \<Rightarrow> real) \<Rightarrow> xreal \<Rightarrow> xreal \<Rightarrow> xreal" where
  "x_lift2 f (Num a) (Num b) = Num (f a b)"
| "x_lift2 f _ _ = NaN"

fun x_div :: "xreal \<Rightarrow> xreal \<Rightarrow> xreal" where
  "x_div (Num a) (Num b) = (if b = 0 then NaN else Num (a / b))"
| "x_div _ _ = NaN"

fun x_pow :: "xreal \<Rightarrow> int \<Rightarrow> xreal" where
  "x_pow (Num a) n = (if 0 \<le> n then Num (a ^ nat n) else NaN)"
| "x_pow _ n = NaN"

fun x_sqrt :: "xreal \<Rightarrow> xreal" where
  "x_sqrt (Num a) = (if 0 \<le> a then Num (sqrt a) else NaN)"
| "x_sqrt _ = NaN"

fun x_lt :: "xreal \<Rightarrow> xreal \<Rightarrow> bool" where
  "x_lt (Num a) (Num b) = (a < b)"
| "x_lt (Num a) PosInf = True"
| "x_lt _ _ = False"

definition x_sum :: "xreal list \<Rightarrow> xreal" where
  "x_sum xs = fold (\<lambda>x s. x_lift2 (+) s x) xs (Num 0)"

definition exact_ops :: "xreal float_ops" where
  "exact_ops =
     \<lparr>float_of_int = (\<lambda>n. Num (real_of_int n)),
      fadd = x_lift2 (+), fsub = x_lift2 (-), fmul = x_lift2 (*), fdiv = x_div,
      int_truediv = (\<lambda>a b. x_div (Num (real_of_int a)) (Num (real_of_int b))),
      fpow = x_pow, fsum = x_sum, fsqrt = x_sqrt, flt = x_lt, finf = PosInf\<rparr>"

subsection \<open>Notions used to state the properties of the loop\<close>

text \<open>
  \<open>candidates self k g\<close> is the sequence of the \<open>k\<close> boards that \<open>k\<close> successive calls
  of \<open>_generate_candidate_board\<close> produce from the random source \<open>g\<close>, with the random
  source left after them.
\<close>

fun candidates :: "generator \<Rightarrow> nat \<Rightarrow> rng \<Rightarrow> error + (board list \<times> rng)" where
  "candidates self 0 g = Inr ([], g)"
| "candidates self (Suc k) g =
     (case generate_candidate_board self g of
        Inl e \<Rightarrow> Inl e
      | Inr (b, g') \<Rightarrow>
          (case candidates self k g' of
             Inl e \<Rightarrow> Inl e
           | Inr (bs, g'') \<Rightarrow> Inr (b # bs, g'')))"

text \<open>A candidate passes both hard constraints.\<close>

definition hard_ok :: "board \<Rightarrow> bool" where
  "hard_ok b = (check_adjacent_high_numbers b \<and> check_desert_placement b)"

text \<open>The boards that the sampler of a generator can return.\<close>

definition sampled_boards :: "generator \<Rightarrow> board set" where
  "sampled_boards self = {b. \<exists>g g'. generate_candidate_board self g = Inr (b, g')}"

text \<open>
  \<open>scores_comparable fo self\<close>: the scores of the boards that can be sampled are
  numbers. Each is below infinity, and on these scores and the float 50 the comparison
  \<open><\<close> is a strict weak order: irreflexive, transitive, and its negation is
  transitive. That is so for floats that are not NaN.
\<close>

definition score_values :: "'f float_ops \<Rightarrow> generator \<Rightarrow> 'f set" where
  "score_values fo self = score_board fo ` sampled_boards self \<union> {float_of_int fo 50}"

definition scores_comparable :: "'f float_ops \<Rightarrow> generator \<Rightarrow> bool" where
  "scores_comparable fo self =
     ((\<forall>b \<in> sampled_boards self. flt fo (score_board fo b) (finf fo)) \<and>
      (\<forall>x \<in> score_values fo self. \<not> flt fo x x) \<and>
      (\<forall>x \<in> score_values fo self. \<forall>y \<in> score_values fo self. \<forall>z \<in> score_values fo self.
         (flt fo x y \<and> flt fo y z \<longrightarrow> flt fo x z) \<and>
         (\<not> flt fo x y \<and> \<not> flt fo y z \<longrightarrow> \<not> flt fo x z)))"

text \<open>
  \<open>first_best fo cs b\<close>: \<open>b\<close> occurs in the sequence \<open>cs\<close> and passes both hard
  constraints, no candidate of \<open>cs\<close> that passes them has a lower score, and every
  candidate before \<open>b\<close> that passes them has a strictly higher score.
\<close>

definition first_best :: "'f float_ops \<Rightarrow> board list \<Rightarrow> board \<Rightarrow> bool" where
  "first_best fo cs b =
     (\<exists>xs ys. cs = xs @ b # ys \<and> hard_ok b \<and>
        (\<forall>c \<in> set cs. hard_ok c \<longrightarrow> \<not> flt fo (score_board fo c) (score_board fo b)) \<and>
        (\<forall>c \<in> set xs. hard_ok c \<longrightarrow> flt fo (score_board fo b) (score_board fo c)))"

text \<open>
  The invariant of the loop over the candidates seen so far, and the condition that no
  candidate seen so far has triggered the early exit.
\<close>

definition loop_inv :: "'f float_ops \<Rightarrow> board list \<Rightarrow> board option \<Rightarrow> 'f \<Rightarrow> bool" where
  "loop_inv fo seen best_board best_score =
     (case best_board of
        None \<Rightarrow> best_score = finf fo \<and> (\<forall>c \<in> set seen. \<not> hard_ok c)
      | Some b \<Rightarrow> best_score = score_board fo b \<and> first_best fo seen b)"

definition no_stop :: "'f float_ops \<Rightarrow> board list \<Rightarrow> bool" where
  "no_stop fo seen =
     (\<forall>c \<in> set seen. hard_ok c \<longrightarrow> \<not> flt fo (score_board fo c) (float_of_int fo 50))"

subsection \<open>The score as the specification words it\<close>

text \<open>
  The neighbours of an index on a board are the indices of the board that the adjacency
  dictionary lists for it. The cluster penalty and the number of adjacent pairs of high
  pip weight are integers, stated over sets of indices, independently of the loops of
  the code; the per-terrain totals are integers as well. The balance penalty is stated
  twice: over the reals, as the population standard deviation of the totals, and with
  the float operations, over the totals in the order in which the terrains first appear
  on the board. With no non-Desert hex there is no terrain total and the balance
  penalty is 0.
\<close>

definition neighbors :: "board \<Rightarrow> nat \<Rightarrow> nat set" where
  "neighbors b p = {q. q < length b \<and> int q \<in> set (adjacency_get (int p))}"

definition same_terrain_neighbors :: "board \<Rightarrow> nat \<Rightarrow> nat" where
  "same_terrain_neighbors b p = card {q \<in> neighbors b p. terrain (b ! q) = terrain (b ! p)}"

definition spec_cluster_penalty :: "board \<Rightarrow> nat" where
  "spec_cluster_penalty b =
     (\<Sum>p | p < length b \<and> terrain (b ! p) \<noteq> ''Desert'' \<and> 2 \<le> same_terrain_neighbors b p.
        same_terrain_neighbors b p)"

definition pip_weight :: "board \<Rightarrow> nat \<Rightarrow> int" where
  "pip_weight b p = get_pip_count (number (b ! p))"

definition adjacent_high_pip_pairs :: "board \<Rightarrow> nat" where
  "adjacent_high_pip_pairs b =
     card {(p, q). p < length b \<and> q \<in> neighbors b p \<and>
                   4 \<le> pip_weight b p \<and> 4 \<le> pip_weight b q}"

definition spec_pip_adjacency_penalty :: "board \<Rightarrow> real" where
  "spec_pip_adjacency_penalty b = real (adjacent_high_pip_pairs b) / 2"

definition resource_terrains :: "board \<Rightarrow> string set" where
  "resource_terrains b = {terrain h | h. h \<in> set b \<and> terrain h \<noteq> ''Desert''}"

definition terrain_total :: "board \<Rightarrow> string \<Rightarrow> int" where
  "terrain_total b t =
     sum_list (map (\<lambda>h. get_pip_count (number h)) (filter (\<lambda>h. terrain h = t) b))"

definition spec_balance_penalty :: "board \<Rightarrow> real" where
  "spec_balance_penalty b =
     (if resource_terrains b = {} then 0
      else
        (let n = real (card (resource_terrains b));
             mean = (\<Sum>t \<in> resource_terrains b. real_of_int (terrain_total b t)) / n
         in sqrt ((\<Sum>t \<in> resource_terrains b. (real_of_int (terrain_total b t) - mean)\<^sup>2) / n)))"

fun first_seen :: "'a list \<Rightarrow> 'a list" where
  "first_seen [] = []"
| "first_seen (x # xs) = x # filter (\<lambda>y. y \<noteq> x) (first_seen xs)"

definition resource_terrain_order :: "board \<Rightarrow> string list" where
  "resource_terrain_order b = first_seen (filter (\<lambda>t. t \<noteq> ''Desert'') (map terrain b))"

definition spec_balance_float :: "'f float_ops \<Rightarrow> board \<Rightarrow> 'f" where
  "spec_balance_float fo b =
     (let totals = map (terrain_total b) (resource_terrain_order b);
          n = int (length (resource_terrain_order b));
          mean = int_truediv fo (sum_list totals) n
      in fsqrt fo
           (fdiv fo (fsum fo (map (\<lambda>v. fpow fo (fsub fo (float_of_int fo v) mean) 2) totals))
              (float_of_int fo n)))"

text \<open>
  The score with the float operations: the sum, from the left, of the float 0, the
  float of 10 times the cluster penalty, 5 times the balance penalty (the float 0 when
  there is no non-Desert hex) and 3 times the pip adjacency penalty, which is the
  number of ordered pairs divided by 2.
\<close>

definition spec_score_float :: "'f float_ops \<Rightarrow> board \<Rightarrow> 'f" where
  "spec_score_float fo b =
     fadd fo
       (fadd fo
          (fadd fo (float_of_int fo 0) (float_of_int fo (int (spec_cluster_penalty b) * 10)))
          (if resource_terrains b = {} then float_of_int fo 0
           else fmul fo (spec_balance_float fo b) (float_of_int fo 5)))
       (fmul fo (int_truediv fo (int (adjacent_high_pip_pairs b)) 2) (float_of_int fo 3))"


definition resource_step :: "hex \<Rightarrow> (string \<times> int) list \<Rightarrow> (string \<times> int) list" where
  "resource_step hex_tile d =
     (if terrain hex_tile \<noteq> ''Desert''
      then dict_set d (terrain hex_tile)
             (dict_get d (terrain hex_tile) 0 + get_pip_count (number hex_tile))
      else d)"

subsection \<open>Example boards\<close>

text \<open>
  \<open>board_a\<close> and \<open>board_b\<close> are the first two boards sampled for the base profile
  from the random source \<open>5, 19, 33, \<dots>\<close>; \<open>board_z\<close> is the board sampled from the
  random source that is constantly 0. \<open>board_s\<close> is a small board for the score and
  \<open>board_o\<close> a board whose hexes all sit at positions above 18. On \<open>board_q\<close> the
  per-terrain totals are 1, 3, 3 and 5, so that their standard deviation is the square
  root of 2.
\<close>

definition board_a :: board where
  "board_a =
    [\<lparr>position = 0, terrain = ''Forest'', number = Some 2\<rparr>,
     \<lparr>position = 1, terrain = ''Forest'', number = Some 8\<rparr>,
     \<lparr>position = 2, terrain = ''Pasture'', number = Some 9\<rparr>,
     \<lparr>position = 3, terrain = ''Forest'', number = Some 3\<rparr>,
     \<lparr>position = 4, terrain = ''Pasture'', number = Some 4\<rparr>,
     \<lparr>position = 5, terrain = ''Field'', number = Some 5\<rparr>,
     \<lparr>position = 6, terrain = ''Hill'', number = Some 6\<rparr>,
     \<lparr>position = 7, terrain = ''Field'', number = Some 6\<rparr>,
     \<lparr>position = 8, terrain = ''Field'', number = Some 9\<rparr>,
     \<lparr>position = 9, terrain = ''Hill'', number = Some 8\<rparr>,
     \<lparr>position = 10, terrain = ''Hill'', number = Some 4\<rparr>,
     \<lparr>position = 11, terrain = ''Pasture'', number = Some 11\<rparr>,
     \<lparr>position = 12, terrain = ''Field'', number = Some 3\<rparr>,
     \<lparr>position = 13, terrain = ''Desert'', number = None\<rparr>,
     \<lparr>position = 14, terrain = ''Mountain'', number = Some 12\<rparr>,
     \<lparr>position = 15, terrain = ''Mountain'', number = Some 10\<rparr>,
     \<lparr>position = 16, terrain = ''Mountain'', number = Some 10\<rparr>,
     \<lparr>position = 17, terrain = ''Forest'', number = Some 11\<rparr>,
     \<lparr>position = 18, terrain = ''Pasture'', number = Some 5\<rparr>]"

definition board_b :: board where
  "board_b =
    [\<lparr>position = 0, terrain = ''Forest'', number = Some 3\<rparr>,
     \<lparr>position = 1, terrain = ''Forest'', number = Some 3\<rparr>,
     \<lparr>position = 2, terrain = ''Field'', number = Some 6\<rparr>,
     \<lparr>position = 3, terrain = ''Pasture'', number = Some 5\<rparr>,
     \<lparr>position = 4, terrain = ''Hill'', number = Some 4\<rparr>,
     \<lparr>position = 5, terrain = ''Pasture'', number = Some 9\<rparr>,
     \<lparr>position = 6, terrain = ''Field'', number = Some 11\<rparr>,
     \<lparr>position = 7, terrain = ''Mountain'', number = Some 11\<rparr>,
     \<lparr>position = 8, terrain = ''Hill'', number = Some 2\<rparr>,
     \<lparr>position = 9, terrain = ''Desert'', number = None\<rparr>,
     \<lparr>position = 10, terrain = ''Forest'', number = Some 8\<rparr>,
     \<lparr>position = 11, terrain = ''Mountain'', number = Some 10\<rparr>,
     \<lparr>position = 12, terrain = ''Pasture'', number = Some 4\<rparr>,
     \<lparr>position = 13, terrain = ''Mountain'', number = Some 9\<rparr>,
     \<lparr>position = 14, terrain = ''Field'', number = Some 5\<rparr>,
     \<lparr>position = 15, terrain = ''Field'', number = Some 12\<rparr>,
     \<lparr>position = 16, terrain = ''Hill'', number = Some 6\<rparr>,
     \<lparr>position = 17, terrain = ''Pasture'', number = Some 10\<rparr>,
     \<lparr>position = 18, terrain = ''Forest'', number = Some 8\<rparr>]"

definition board_z :: board where
  "board_z =
    [\<lparr>position = 0, terrain = ''Forest'', number = Some 3\<rparr>,
     \<lparr>position = 1, terrain = ''Forest'', number = Some 3\<rparr>,
     \<lparr>position = 2, terrain = ''Forest'', number = Some 4\<rparr>,
     \<lparr>position = 3, terrain = ''Pasture'', number = Some 4\<rparr>,
     \<lparr>position = 4, terrain = ''Pasture'', number = Some 5\<rparr>,
     \<lparr>position = 5, terrain = ''Pasture'', number = Some 5\<rparr>,
     \<lparr>position = 6, terrain = ''Pasture'', number = Some 6\<rparr>,
     \<lparr>position = 7, terrain = ''Field'', number = Some 6\<rparr>,
     \<lparr>position = 8, terrain = ''Field'', number = Some 8\<rparr>,
     \<lparr>position = 9, terrain = ''Field'', number = Some 8\<rparr>,
     \<lparr>position = 10, terrain = ''Field'', number = Some 9\<rparr>,
     \<lparr>position = 11, terrain = ''Hill'', number = Some 9\<rparr>,
     \<lparr>position = 12, terrain = ''Hill'', number = Some 10\<rparr>,
     \<lparr>position = 13, terrain = ''Hill'', number = Some 10\<rparr>,
     \<lparr>position = 14, terrain = ''Mountain'', number = Some 11\<rparr>,
     \<lparr>position = 15, terrain = ''Mountain'', number = Some 11\<rparr>,
     \<lparr>position = 16, terrain = ''Mountain'', number = Some 12\<rparr>,
     \<lparr>position = 17, terrain = ''Desert'', number = None\<rparr>,
     \<lparr>position = 18, terrain = ''Forest'', number = Some 2\<rparr>]"


definition board_o :: board where
  "board_o =
    [\<lparr>position = 19, terrain = ''Field'', number = Some 6\<rparr>,
     \<lparr>position = 20, terrain = ''Hill'', number = Some 8\<rparr>,
     \<lparr>position = 29, terrain = ''Desert'', number = None\<rparr>]"


section \<open>The adjacency dictionary and the pip table\<close>

lemma adjacency_get_cases:
  "adjacency_get p =
    (if p = 0 then [1, 3, 4] else if p = 1 then [0, 2, 4, 5] else if p = 2 then [1, 5, 6]
     else if p = 3 then [0, 4, 7, 8] else if p = 4 then [0, 1, 3, 5, 8, 9]
     else if p = 5 then [1, 2, 4, 6, 9, 10] else if p = 6 then [2, 5, 10, 11]
     else if p = 7 then [3, 8, 12] else if p = 8 then [3, 4, 7, 9, 12, 13]
     else if p = 9 then [4, 5, 8, 10, 13, 14] else if p = 10 then [5, 6, 9, 11, 14, 15]
     else if p = 11 then [6, 10, 15] else if p = 12 then [7, 8, 13, 16]
     else if p = 13 then [8, 9, 12, 14, 16, 17] else if p = 14 then [9, 10, 13, 15, 17, 18]
     else if p = 15 then [10, 11, 14, 18] else if p = 16 then [12, 13, 17]
     else if p = 17 then [13, 14, 16, 18] else if p = 18 then [14, 15, 17] else [])"
  by (simp add: adjacency_get_def adjacency_def)

lemma adjacency_table_closed:
  "list_all (\<lambda>(a, l). 0 \<le> a \<and> a \<le> 18 \<and> distinct l \<and>
      list_all (\<lambda>b. 0 \<le> b \<and> b \<le> 18 \<and> a \<in> set (adjacency_get b)) l) adjacency"
  by (simp add: adjacency_def adjacency_get_cases)

lemma adjacency_get_mem:
  "q \<in> set (adjacency_get p) \<longleftrightarrow> (\<exists>l. (p, l) \<in> set adjacency \<and> q \<in> set l)"
proof -
  have dist: "distinct (map fst adjacency)" by (simp add: adjacency_def)
  show ?thesis
  proof (cases "map_of adjacency p")
    case None
    then have "\<And>l. (p, l) \<notin> set adjacency"
      by (metis map_of_eq_Some_iff [OF dist] option.distinct(1))
    with None show ?thesis by (simp add: adjacency_get_def)
  next
    case (Some a)
    then have "\<And>l. (p, l) \<in> set adjacency \<longleftrightarrow> l = a"
      by (metis map_of_eq_Some_iff [OF dist] option.inject)
    with Some show ?thesis by (simp add: adjacency_get_def)
  qed
qed

lemma adjacency_table_entry:
  assumes "(a, l) \<in> set adjacency" and "b \<in> set l"
  shows "0 \<le> a \<and> a \<le> 18 \<and> 0 \<le> b \<and> b \<le> 18 \<and> a \<in> set (adjacency_get b)"
proof -
  from adjacency_table_closed assms(1)
  have "0 \<le> a \<and> a \<le> 18 \<and> distinct l \<and>
      list_all (\<lambda>b. 0 \<le> b \<and> b \<le> 18 \<and> a \<in> set (adjacency_get b)) l"
    unfolding list_all_iff by blast
  with assms(2) show ?thesis unfolding list_all_iff by blast
qed

lemma adjacency_get_range:
  "q \<in> set (adjacency_get p) \<Longrightarrow> 0 \<le> p \<and> p \<le> 18 \<and> 0 \<le> q \<and> q \<le> 18"
  using adjacency_table_entry unfolding adjacency_get_mem [of q p] by blast

lemma adjacency_get_sym: "q \<in> set (adjacency_get p) \<Longrightarrow> p \<in> set (adjacency_get q)"
  using adjacency_table_entry unfolding adjacency_get_mem [of q p] by blast

lemma adjacency_get_outside: "p < 0 \<or> 18 < p \<Longrightarrow> adjacency_get p = []"
  by (auto simp: adjacency_get_cases)

lemma distinct_adjacency_get: "distinct (adjacency_get p)"
  by (simp add: adjacency_get_cases)

text \<open>
  C9. The adjacency dictionary is symmetric on the positions 0..18: \<open>b\<close> is listed as a
  neighbour of \<open>a\<close> if and only if \<open>a\<close> is listed as a neighbour of \<open>b\<close>.
\<close>

theorem adjacency_symmetric:
  "a \<in> {0..18} \<Longrightarrow> b \<in> {0..18} \<Longrightarrow>
     b \<in> set (adjacency_get a) \<longleftrightarrow> a \<in> set (adjacency_get b)"
  using adjacency_get_sym by blast

theorem adjacency_symmetric_witness:
  "(3::int) \<in> {0..18} \<and> (8::int) \<in> {0..18} \<and>
   8 \<in> set (adjacency_get 3) \<and> 3 \<in> set (adjacency_get 8)"
  using adjacency_symmetric [of 3 8] by (simp add: adjacency_get_cases)

lemma get_pip_count_Some:
  "get_pip_count (Some k) =
     (if k = 2 \<or> k = 12 then 1 else if k = 3 \<or> k = 11 then 2 else if k = 4 \<or> k = 10 then 3
      else if k = 5 \<or> k = 9 then 4 else if k = 6 \<or> k = 8 then 5 else 0)"
  by (simp add: get_pip_count_def pip_map_def)

lemma get_pip_count_None: "get_pip_count None = 0"
  by (simp add: get_pip_count_def)

lemma get_pip_count_nonneg: "0 \<le> get_pip_count n"
  by (cases n) (simp_all add: get_pip_count_Some get_pip_count_None)

text \<open>
  C8, as the code has it. \<open>get_pip_count\<close> returns the two-dice table value for the
  tokens 2..6 and 8..12 and 0 for \<open>None\<close>; for every other integer (7 or 13, say)
  the lookup \<open>pip_map.get(number, 0)\<close> falls back to its default and the call returns 0.
  No input makes it raise.
\<close>

theorem get_pip_count_table:
  "get_pip_count (Some 2) = 1 \<and> get_pip_count (Some 12) = 1 \<and>
   get_pip_count (Some 3) = 2 \<and> get_pip_count (Some 11) = 2 \<and>
   get_pip_count (Some 4) = 3 \<and> get_pip_count (Some 10) = 3 \<and>
   get_pip_count (Some 5) = 4 \<and> get_pip_count (Some 9) = 4 \<and>
   get_pip_count (Some 6) = 5 \<and> get_pip_count (Some 8) = 5 \<and>
   get_pip_count None = 0 \<and>
   (\<forall>k. k \<notin> {2, 3, 4, 5, 6, 8, 9, 10, 11, 12} \<longrightarrow> get_pip_count (Some k) = 0)"
  by (simp add: get_pip_count_Some get_pip_count_None)

theorem get_pip_count_table_witness:
  "get_pip_count (Some 1) = 0 \<and> get_pip_count (Some (- 3)) = 0"
  using get_pip_count_table by simp

text \<open>
  The claim C8 as stated says that a call with 7 or 13 fails instead of returning a
  value. The code returns the value 0 for both.
\<close>

theorem get_pip_count_other_input_counterexample:
  "get_pip_count (Some 7) = 0 \<and> get_pip_count (Some 13) = 0"
  by (simp add: get_pip_count_Some)

section \<open>Hard constraints\<close>

lemma high_numbers_loop_iff:
  "high_numbers_loop xs hv \<longleftrightarrow>
     \<not> (\<exists>pos \<in> set xs. \<exists>adj_pos \<in> set (adjacency_get pos). adj_pos \<in> set hv)"
  by (induction xs) (auto simp: list_ex_iff)

lemma set_high_value_positions:
  "set (high_value_positions b) =
     {position h | h. h \<in> set b \<and> (number h = Some 6 \<or> number h = Some 8)}"
  by (auto simp: high_value_positions_def)

text \<open>
  C4. \<open>_check_adjacent_high_numbers\<close> returns \<open>True\<close> if and only if the board has no
  two hexes, both with a number token 6 or 8, such that the position of the second is
  listed as a neighbour of the position of the first.
\<close>

theorem check_adjacent_high_numbers_iff:
  "check_adjacent_high_numbers b \<longleftrightarrow>
     \<not> (\<exists>h1 \<in> set b. \<exists>h2 \<in> set b.
           (number h1 = Some 6 \<or> number h1 = Some 8) \<and>
           (number h2 = Some 6 \<or> number h2 = Some 8) \<and>
           position h2 \<in> set (adjacency_get (position h1)))"
proof -
  let ?H = "{position h | h. h \<in> set b \<and> (number h = Some 6 \<or> number h = Some 8)}"
  have "check_adjacent_high_numbers b \<longleftrightarrow>
      \<not> (\<exists>pos \<in> ?H. \<exists>adj_pos \<in> set (adjacency_get pos). adj_pos \<in> ?H)"
    by (simp only: check_adjacent_high_numbers_def high_numbers_loop_iff set_high_value_positions)
  then show ?thesis by blast
qed

theorem check_adjacent_high_numbers_witness:
  "\<not> check_adjacent_high_numbers
       [\<lparr>position = 0, terrain = ''Hill'', number = Some 6\<rparr>,
        \<lparr>position = 1, terrain = ''Field'', number = Some 8\<rparr>] \<and>
   check_adjacent_high_numbers
       [\<lparr>position = 0, terrain = ''Hill'', number = Some 6\<rparr>,
        \<lparr>position = 1, terrain = ''Field'', number = Some 5\<rparr>,
        \<lparr>position = 2, terrain = ''Field'', number = Some 8\<rparr>]"
  unfolding check_adjacent_high_numbers_iff
  by (simp add: adjacency_get_def adjacency_def)

lemma check_desert_placement_iff_edge:
  "check_desert_placement b \<longleftrightarrow>
     \<not> (\<exists>h \<in> set b. terrain h = ''Desert'' \<and> position h \<in> edge_positions)"
  by (induction b) auto

text \<open>
  C5. \<open>_check_desert_placement\<close> returns \<open>True\<close> if and only if no hex of the board
  with terrain Desert has its position in the edge set
  \<open>{0, 1, 2, 3, 6, 7, 11, 12, 16, 17, 18}\<close>.
\<close>

theorem check_desert_placement_iff:
  "check_desert_placement b \<longleftrightarrow>
     \<not> (\<exists>h \<in> set b. terrain h = ''Desert'' \<and>
           position h \<in> {0, 1, 2, 3, 6, 7, 11, 12, 16, 17, 18})"
  unfolding check_desert_placement_iff_edge edge_positions_def ..

theorem check_desert_placement_witness:
  "\<not> check_desert_placement [\<lparr>position = 0, terrain = ''Desert'', number = None\<rparr>] \<and>
   check_desert_placement
       [\<lparr>position = 0, terrain = ''Hill'', number = Some 6\<rparr>,
        \<lparr>position = 4, terrain = ''Desert'', number = None\<rparr>]"
  unfolding check_desert_placement_iff
  by simp

section \<open>Candidate sampling\<close>

lemma shuffle_loop_mset:
  "i < length x \<or> i = 0 \<Longrightarrow>
     mset (fst (shuffle_loop i x g)) = mset x \<and> length (fst (shuffle_loop i x g)) = length x"
proof (induction i arbitrary: x g)
  case 0
  then show ?case by simp
next
  case (Suc i)
  then have len: "Suc i < length x" by simp
  define j where "j = shd g mod (Suc i + 1)"
  have "j < Suc i + 1" unfolding j_def by simp
  then have j: "j < length x" using len by simp
  define y where "y = x[Suc i := x ! j, j := x ! Suc i]"
  have y: "mset y = mset x" "length y = length x"
    unfolding y_def using mset_swap [OF j len] by simp_all
  have step: "shuffle_loop (Suc i) x g = shuffle_loop i y (stl g)"
    by (simp add: randbelow_def j_def y_def)
  have "i < length y \<or> i = 0" using len y by simp
  from Suc.IH [OF this, of "stl g"] show ?case
    unfolding step using y by simp
qed

lemma shuffle_mset:
  "mset (fst (shuffle x g)) = mset x \<and> length (fst (shuffle x g)) = length x"
  unfolding shuffle_def by (rule shuffle_loop_mset) (cases x; simp)

lemma upt_from_Cons: "[i..<i + Suc n] = i # [Suc i..<Suc i + n]"
  by (simp add: upt_rec [of i] del: upt_Suc)

lemma assign_loop_ok:
  "k + length (filter (\<lambda>t. t \<noteq> ''Desert'') ts) \<le> length nums \<Longrightarrow>
   \<exists>new. assign_loop i ts nums k acc = Inr (acc @ new) \<and>
     map terrain new = ts \<and>
     map position new = map int [i..<i + length ts] \<and>
     map number (filter (\<lambda>h. terrain h \<noteq> ''Desert'') new) =
       map Some (take (length (filter (\<lambda>t. t \<noteq> ''Desert'') ts)) (drop k nums)) \<and>
     (\<forall>h \<in> set new. (terrain h = ''Desert'' \<longrightarrow> number h = None) \<and>
                     (terrain h \<noteq> ''Desert'' \<longrightarrow> number h \<noteq> None))"
proof (induction ts arbitrary: i k acc)
  case Nil
  then show ?case by simp
next
  case (Cons t ts)
  show ?case
  proof (cases "t = ''Desert''")
    case True
    let ?h = "\<lparr>position = int i, terrain = t, number = None\<rparr>"
    from Cons.prems True
    have "k + length (filter (\<lambda>t. t \<noteq> ''Desert'') ts) \<le> length nums" by simp
    from Cons.IH [OF this, of "Suc i" "acc @ [?h]"]
    obtain new where new: "assign_loop (Suc i) ts nums k (acc @ [?h]) = Inr ((acc @ [?h]) @ new)"
      "map terrain new = ts" "map position new = map int [Suc i..<Suc i + length ts]"
      "map number (filter (\<lambda>h. terrain h \<noteq> ''Desert'') new) =
         map Some (take (length (filter (\<lambda>t. t \<noteq> ''Desert'') ts)) (drop k nums))"
      "\<forall>h \<in> set new. (terrain h = ''Desert'' \<longrightarrow> number h = None) \<and>
                     (terrain h \<noteq> ''Desert'' \<longrightarrow> number h \<noteq> None)"
      by blast
    have "assign_loop i (t # ts) nums k acc = Inr (acc @ (?h # new))"
      using True new(1) by simp
    moreover have "map position (?h # new) = map int [i..<i + length (t # ts)]"
      using new(3) upt_from_Cons [of i "length ts"] by simp
    ultimately show ?thesis
      using True new(2,4,5) by (intro exI [of _ "?h # new"]) simp
  next
    case False
    let ?h = "\<lparr>position = int i, terrain = t, number = Some (nums ! k)\<rparr>"
    from Cons.prems False
    have k: "k < length nums" and
      le: "Suc k + length (filter (\<lambda>t. t \<noteq> ''Desert'') ts) \<le> length nums" by simp_all
    from Cons.IH [OF le, of "Suc i" "acc @ [?h]"]
    obtain new where new: "assign_loop (Suc i) ts nums (Suc k) (acc @ [?h]) = Inr ((acc @ [?h]) @ new)"
      "map terrain new = ts" "map position new = map int [Suc i..<Suc i + length ts]"
      "map number (filter (\<lambda>h. terrain h \<noteq> ''Desert'') new) =
         map Some (take (length (filter (\<lambda>t. t \<noteq> ''Desert'') ts)) (drop (Suc k) nums))"
      "\<forall>h \<in> set new. (terrain h = ''Desert'' \<longrightarrow> number h = None) \<and>
                     (terrain h \<noteq> ''Desert'' \<longrightarrow> number h \<noteq> None)"
      by blast
    have "assign_loop i (t # ts) nums k acc = Inr (acc @ (?h # new))"
      using False k new(1) by simp
    moreover have "map position (?h # new) = map int [i..<i + length (t # ts)]"
      using new(3) upt_from_Cons [of i "length ts"] by simp
    moreover have "drop k nums = nums ! k # drop (Suc k) nums"
      using k by (simp add: Cons_nth_drop_Suc)
    ultimately show ?thesis
      using False new(2,4,5) by (intro exI [of _ "?h # new"]) simp
  qed
qed

lemma generate_candidate_board_ok:
  assumes ts: "terrains self = Some ts" and ns: "numbers self = Some ns"
    and cnt: "length (filter (\<lambda>t. t \<noteq> ''Desert'') ts) = length ns"
  shows "\<exists>b g'. generate_candidate_board self g = Inr (b, g') \<and>
     length b = length ts \<and>
     map position b = map int [0..<length ts] \<and>
     mset (map terrain b) = mset ts \<and>
     mset (map number (filter (\<lambda>h. terrain h \<noteq> ''Desert'') b)) = mset (map Some ns) \<and>
     (\<forall>h \<in> set b. (terrain h = ''Desert'' \<longrightarrow> number h = None) \<and>
                   (terrain h \<noteq> ''Desert'' \<longrightarrow> number h \<noteq> None))"
proof -
  obtain st g1 where st: "shuffle ts g = (st, g1)" by (cases "shuffle ts g")
  obtain sn g2 where sn: "shuffle ns g1 = (sn, g2)" by (cases "shuffle ns g1")
  have mst: "mset st = mset ts" "length st = length ts"
    using shuffle_mset [of ts g] st by simp_all
  have msn: "mset sn = mset ns" "length sn = length ns"
    using shuffle_mset [of ns g1] sn by simp_all
  have "length (filter (\<lambda>t. t \<noteq> ''Desert'') st) = length (filter (\<lambda>t. t \<noteq> ''Desert'') ts)"
    using mst(1) by (metis mset_filter size_mset)
  then have cnt': "length (filter (\<lambda>t. t \<noteq> ''Desert'') st) = length sn"
    using cnt msn(2) by simp
  then have "0 + length (filter (\<lambda>t. t \<noteq> ''Desert'') st) \<le> length sn" by simp
  from assign_loop_ok [OF this, of 0 "[]"]
  obtain b where b: "assign_loop 0 st sn 0 [] = Inr b"
      "map terrain b = st" "map position b = map int [0..<length st]"
      "map number (filter (\<lambda>h. terrain h \<noteq> ''Desert'') b) = map Some sn"
      "\<forall>h \<in> set b. (terrain h = ''Desert'' \<longrightarrow> number h = None) \<and>
                     (terrain h \<noteq> ''Desert'' \<longrightarrow> number h \<noteq> None)"
    using cnt' by auto
  have "generate_candidate_board self g = Inr (b, g2)"
    by (simp add: generate_candidate_board_def ts ns st sn b(1))
  moreover have "length b = length ts"
    using b(2) mst(2) by (metis length_map)
  moreover have "mset (map terrain b) = mset ts" using b(2) mst(1) by simp
  moreover have "mset (map number (filter (\<lambda>h. terrain h \<noteq> ''Desert'') b)) = mset (map Some ns)"
    using b(4) msn(1) by (metis mset_map)
  ultimately show ?thesis using b(3,5) mst(2) by auto
qed

lemma profile_pools:
  "name \<in> {''base'', ''5-6player'', ''custom''} \<Longrightarrow>
     \<exists>ts ns. terrains (CatanBoardGenerator name) = Some ts \<and>
             numbers (CatanBoardGenerator name) = Some ns \<and>
             length (filter (\<lambda>t. t \<noteq> ''Desert'') ts) = length ns \<and> ts \<noteq> []"
  by (auto simp: CatanBoardGenerator_def setup_distribution_def)

text \<open>
  C2. For each of the three profiles and every random source, one call of
  \<open>_generate_candidate_board\<close> returns a board with one hex per position
  \<open>0..N-1\<close> in order (\<open>N\<close> the size of the terrain pool), whose terrains are the
  terrain pool as a multiset, whose numbers on the non-Desert hexes are the number pool
  as a multiset, where a Desert hex has no number and every other hex has one.
\<close>

theorem sample_preserves_profile:
  assumes "name \<in> {''base'', ''5-6player'', ''custom''}"
  shows "\<exists>ts ns b g'.
     terrains (CatanBoardGenerator name) = Some ts \<and>
     numbers (CatanBoardGenerator name) = Some ns \<and>
     generate_candidate_board (CatanBoardGenerator name) g = Inr (b, g') \<and>
     length b = length ts \<and>
     map position b = map int [0..<length ts] \<and>
     mset (map terrain b) = mset ts \<and>
     mset (map number (filter (\<lambda>h. terrain h \<noteq> ''Desert'') b)) = mset (map Some ns) \<and>
     (\<forall>h \<in> set b. (terrain h = ''Desert'' \<longrightarrow> number h = None) \<and>
                   (terrain h \<noteq> ''Desert'' \<longrightarrow> number h \<noteq> None))"
proof -
  from profile_pools [OF assms] obtain ts ns where
    p: "terrains (CatanBoardGenerator name) = Some ts"
       "numbers (CatanBoardGenerator name) = Some ns"
       "length (filter (\<lambda>t. t \<noteq> ''Desert'') ts) = length ns"
    by blast
  from generate_candidate_board_ok [OF p, of g] p(1,2) show ?thesis by blast
qed

theorem sample_preserves_profile_witness:
  "\<exists>ts ns b g'.
     terrains (CatanBoardGenerator ''base'') = Some ts \<and>
     numbers (CatanBoardGenerator ''base'') = Some ns \<and>
     generate_candidate_board (CatanBoardGenerator ''base'') (sconst 0) = Inr (b, g') \<and>
     length b = length ts \<and>
     map position b = map int [0..<length ts] \<and>
     mset (map terrain b) = mset ts \<and>
     mset (map number (filter (\<lambda>h. terrain h \<noteq> ''Desert'') b)) = mset (map Some ns) \<and>
     (\<forall>h \<in> set b. (terrain h = ''Desert'' \<longrightarrow> number h = None) \<and>
                   (terrain h \<noteq> ''Desert'' \<longrightarrow> number h \<noteq> None))"
  using sample_preserves_profile [of "''base''" "sconst 0"] by simp

section \<open>Scoring\<close>

lemma fold_add_sum_list:
  "fold (\<lambda>x (acc::int). acc + F x) xs a = a + sum_list (map F xs)"
  by (induction xs arbitrary: a) simp_all

lemma sum_list_enumerate:
  "sum_list (map F (enumerate 0 xs)) = (\<Sum>i = 0..<length xs. (F (i, xs ! i) :: int))"
proof -
  have "sum_list (map F (enumerate 0 xs)) =
      (\<Sum>i = 0..<length xs. map F (enumerate 0 xs) ! i)"
    using sum_list_sum_nth [of "map F (enumerate 0 xs)"] by simp
  also have "\<dots> = (\<Sum>i = 0..<length xs. F (i, xs ! i))"
    by (rule sum.cong) (simp_all add: nth_enumerate_eq)
  finally show ?thesis .
qed

lemma sum_list_indicator:
  "sum_list (map (\<lambda>a. if P a then 1 else (0::int)) xs) = int (length (filter P xs))"
  by (induction xs) simp_all

lemma count_neighbours:
  "length (filter (\<lambda>a. a < int (length b) \<and> Q (nat a)) (adjacency_get p)) =
     card {q. q < length b \<and> int q \<in> set (adjacency_get p) \<and> Q q}"
proof -
  let ?S = "{q. q < length b \<and> int q \<in> set (adjacency_get p) \<and> Q q}"
  have "length (filter (\<lambda>a. a < int (length b) \<and> Q (nat a)) (adjacency_get p)) =
      card ({a. a < int (length b) \<and> Q (nat a)} \<inter> set (adjacency_get p))"
    by (rule distinct_length_filter [OF distinct_adjacency_get])
  also have "{a. a < int (length b) \<and> Q (nat a)} \<inter> set (adjacency_get p) = int ` ?S"
  proof (intro equalityI subsetI)
    fix a assume a: "a \<in> {a. a < int (length b) \<and> Q (nat a)} \<inter> set (adjacency_get p)"
    then have a0: "0 \<le> a" using adjacency_get_range [of a p] by simp
    have eq: "a = int (nat a)" using a0 by simp
    have lt: "a < int (length b)" using a by simp
    have "nat a < length b" using lt a0 by (simp add: nat_less_iff)
    moreover have "int (nat a) \<in> set (adjacency_get p)" using a a0 by simp
    ultimately have "nat a \<in> ?S" using a by simp
    with eq show "a \<in> int ` ?S" by (rule image_eqI)
  next
    fix a assume "a \<in> int ` ?S"
    then show "a \<in> {a. a < int (length b) \<and> Q (nat a)} \<inter> set (adjacency_get p)" by auto
  qed
  also have "card (int ` ?S) = card ?S"
    by (rule card_image) (simp add: inj_on_def)
  finally show ?thesis .
qed

lemma same_terrain_count_spec:
  "same_terrain_count b p (b ! p) = int (same_terrain_neighbors b p)"
  unfolding same_terrain_count_def same_terrain_neighbors_def neighbors_def
  using count_neighbours [of b "\<lambda>q. terrain (b ! q) = terrain (b ! p)" "int p"]
  by (simp add: conj_commute conj_left_commute)

lemma score_terrain_clustering_spec:
  "score_terrain_clustering b = int (spec_cluster_penalty b)"
proof -
  let ?c = "same_terrain_neighbors b"
  let ?F = "\<lambda>(pos, hex_tile). if terrain hex_tile = ''Desert'' then 0
       else if same_terrain_count b pos hex_tile \<ge> 2 then same_terrain_count b pos hex_tile else 0"
  have "score_terrain_clustering b = fold (\<lambda>x acc. acc + ?F x) (enumerate 0 b) 0"
    unfolding score_terrain_clustering_def
    by (rule arg_cong [where f = "\<lambda>f. fold f (enumerate 0 b) 0"]) (auto simp: fun_eq_iff)
  also have "\<dots> = (\<Sum>i = 0..<length b. ?F (i, b ! i))"
    by (simp add: fold_add_sum_list sum_list_enumerate)
  also have "\<dots> = (\<Sum>i = 0..<length b.
       if terrain (b ! i) \<noteq> ''Desert'' \<and> 2 \<le> ?c i then int (?c i) else 0)"
    by (rule sum.cong) (auto simp: same_terrain_count_spec)
  also have "\<dots> = (\<Sum>i \<in> {i \<in> {0..<length b}. terrain (b ! i) \<noteq> ''Desert'' \<and> 2 \<le> ?c i}. int (?c i))"
    by (rule sum.inter_filter [symmetric]) simp
  also have "{i \<in> {0..<length b}. terrain (b ! i) \<noteq> ''Desert'' \<and> 2 \<le> ?c i} =
      {p. p < length b \<and> terrain (b ! p) \<noteq> ''Desert'' \<and> 2 \<le> ?c p}" by auto
  finally show ?thesis by (simp add: spec_cluster_penalty_def)
qed

lemma pip_ge_4_truthy: "4 \<le> get_pip_count n \<Longrightarrow> truthy n"
  by (cases n) (auto simp: truthy_def get_pip_count_None get_pip_count_Some)

lemma pip_adjacency_inner_spec:
  "pip_adjacency_inner b p penalty =
     penalty + int (card {q \<in> neighbors b p. 4 \<le> pip_weight b q})"
proof -
  let ?G = "\<lambda>a. if a < int (length b) \<and> 4 \<le> get_pip_count (number (b ! nat a)) then 1 else (0::int)"
  have "pip_adjacency_inner b p penalty = fold (\<lambda>a acc. acc + ?G a) (adjacency_get (int p)) penalty"
    unfolding pip_adjacency_inner_def
    by (rule arg_cong [where f = "\<lambda>f. fold f (adjacency_get (int p)) penalty"])
       (auto simp: fun_eq_iff pip_ge_4_truthy)
  also have "\<dots> = penalty + sum_list (map ?G (adjacency_get (int p)))"
    by (rule fold_add_sum_list)
  also have "sum_list (map ?G (adjacency_get (int p))) =
      int (length (filter (\<lambda>a. a < int (length b) \<and> 4 \<le> get_pip_count (number (b ! nat a)))
        (adjacency_get (int p))))"
    by (rule sum_list_indicator)
  finally show ?thesis
    using count_neighbours [of b "\<lambda>q. 4 \<le> get_pip_count (number (b ! q))" "int p"]
    by (simp add: neighbors_def pip_weight_def conj_commute conj_left_commute)
qed

lemma pip_adjacency_count_spec: "pip_adjacency_count b = int (adjacent_high_pip_pairs b)"
proof -
  let ?n = "\<lambda>p. card {q \<in> neighbors b p. 4 \<le> pip_weight b q}"
  let ?A = "{p. p < length b \<and> 4 \<le> pip_weight b p}"
  let ?F = "\<lambda>(pos, hex_tile). if number hex_tile = None then 0
       else if get_pip_count (number hex_tile) < 4 then 0
       else int (card {q \<in> neighbors b pos. 4 \<le> pip_weight b q})"
  have "fold (\<lambda>(pos, hex_tile) penalty.
          if number hex_tile = None then penalty
          else if get_pip_count (number hex_tile) < 4 then penalty
          else pip_adjacency_inner b pos penalty) (enumerate 0 b) 0 =
        fold (\<lambda>x acc. acc + ?F x) (enumerate 0 b) 0"
    by (rule arg_cong [where f = "\<lambda>f. fold f (enumerate 0 b) 0"])
       (auto simp: fun_eq_iff pip_adjacency_inner_spec)
  also have "\<dots> = (\<Sum>i = 0..<length b. ?F (i, b ! i))"
    by (simp add: fold_add_sum_list sum_list_enumerate)
  also have "\<dots> = (\<Sum>i = 0..<length b. if 4 \<le> pip_weight b i then int (?n i) else 0)"
    by (rule sum.cong) (auto simp: pip_weight_def get_pip_count_None)
  also have "\<dots> = (\<Sum>i \<in> {i \<in> {0..<length b}. 4 \<le> pip_weight b i}. int (?n i))"
    by (rule sum.inter_filter [symmetric]) simp
  also have "{i \<in> {0..<length b}. 4 \<le> pip_weight b i} = ?A" by auto
  also have "(\<Sum>i \<in> ?A. int (?n i)) = int (\<Sum>i \<in> ?A. ?n i)" by simp
  also have "(\<Sum>i \<in> ?A. ?n i) = card (SIGMA p:?A. {q \<in> neighbors b p. 4 \<le> pip_weight b q})"
    by (rule card_SigmaI [symmetric]) (simp_all add: neighbors_def)
  also have "(SIGMA p:?A. {q \<in> neighbors b p. 4 \<le> pip_weight b q}) =
      {(p, q). p < length b \<and> q \<in> neighbors b p \<and> 4 \<le> pip_weight b p \<and> 4 \<le> pip_weight b q}"
    by auto
  finally show ?thesis
    by (simp add: pip_adjacency_count_def adjacent_high_pip_pairs_def)
qed

lemma map_of_dict_set: "map_of (dict_set d k v) = (map_of d)(k \<mapsto> v)"
  by (induction d k v rule: dict_set.induct) (auto simp: fun_eq_iff)

lemma dict_get_dict_set:
  "dict_get (dict_set d k v) k' dflt = (if k' = k then v else dict_get d k' dflt)"
  by (simp add: dict_get_def map_of_dict_set)

lemma keys_dict_set:
  "map fst (dict_set d k v) = (if k \<in> set (map fst d) then map fst d else map fst d @ [k])"
  by (induction d k v rule: dict_set.induct) auto

lemma key_set_dict_set: "fst ` set (dict_set d k v) = insert k (fst ` set d)"
  using arg_cong [OF keys_dict_set [of d k v], of set] by (auto simp del: set_map simp: set_map [symmetric])

lemma real_of_int_sum_list: "real_of_int (sum_list xs) = sum_list (map real_of_int xs)"
  by (induction xs) simp_all

lemma distinct_keys_dict_set:
  "distinct (map fst d) \<Longrightarrow> distinct (map fst (dict_set d k v))"
  by (simp add: keys_dict_set)

lemma resource_pips_fold: "resource_pips b = fold resource_step b []"
  unfolding resource_pips_def
  by (rule arg_cong [where f = "\<lambda>f. fold f b []"]) (simp add: fun_eq_iff resource_step_def)

lemma resource_fold_inv:
  "distinct (map fst d) \<Longrightarrow>
     distinct (map fst (fold resource_step xs d)) \<and>
     fst ` set (fold resource_step xs d) = fst ` set d \<union> resource_terrains xs \<and>
     (\<forall>t. t \<noteq> ''Desert'' \<longrightarrow>
        dict_get (fold resource_step xs d) t 0 = dict_get d t 0 + terrain_total xs t)"
proof (induction xs arbitrary: d)
  case Nil
  then show ?case by (simp add: resource_terrains_def terrain_total_def)
next
  case (Cons h xs)
  let ?d = "resource_step h d"
  have dist: "distinct (map fst ?d)"
    using Cons.prems by (simp add: resource_step_def distinct_keys_dict_set)
  have keys: "fst ` set ?d = fst ` set d \<union> resource_terrains [h]"
    by (simp add: resource_step_def key_set_dict_set resource_terrains_def)
  have val: "dict_get ?d t 0 = dict_get d t 0 + terrain_total [h] t" if "t \<noteq> ''Desert''" for t
    using that by (auto simp: resource_step_def dict_get_dict_set terrain_total_def)
  have rt: "resource_terrains (h # xs) = resource_terrains [h] \<union> resource_terrains xs"
    by (auto simp: resource_terrains_def)
  have tt: "terrain_total (h # xs) t = terrain_total [h] t + terrain_total xs t" for t
    by (simp add: terrain_total_def)
  from Cons.IH [OF dist] show ?case
    by (simp add: keys rt tt val Un_assoc)
qed

lemma resource_pips_spec:
  "distinct (map fst (resource_pips b))"
  "set (map fst (resource_pips b)) = resource_terrains b"
  "t \<in> resource_terrains b \<Longrightarrow> dict_get (resource_pips b) t 0 = terrain_total b t"
proof -
  have inv: "distinct (map fst (fold resource_step b [])) \<and>
     fst ` set (fold resource_step b []) = resource_terrains b \<and>
     (\<forall>t. t \<noteq> ''Desert'' \<longrightarrow>
        dict_get (fold resource_step b []) t 0 = terrain_total b t)"
    using resource_fold_inv [of "[]" b] by (simp add: dict_get_def)
  show "distinct (map fst (resource_pips b))"
    "set (map fst (resource_pips b)) = resource_terrains b"
    using inv by (simp_all add: resource_pips_fold)
  assume "t \<in> resource_terrains b"
  then have "t \<noteq> ''Desert''" by (auto simp: resource_terrains_def)
  with inv show "dict_get (resource_pips b) t 0 = terrain_total b t"
    by (simp add: resource_pips_fold)
qed

lemma values_by_key:
  "distinct (map fst d) \<Longrightarrow> map snd d = map (\<lambda>k. dict_get d k dflt) (map fst d)"
proof (induction d)
  case Nil
  then show ?case by simp
next
  case (Cons kv d)
  obtain k v where kv: "kv = (k, v)" by (cases kv)
  from Cons.prems kv have k: "k \<notin> set (map fst d)" and dist: "distinct (map fst d)" by simp_all
  have "map (\<lambda>k'. dict_get (kv # d) k' dflt) (map fst d) = map (\<lambda>k'. dict_get d k' dflt) (map fst d)"
    by (rule map_cong [OF refl]) (use k kv in \<open>auto simp: dict_get_def\<close>)
  with Cons.IH [OF dist] kv show ?case by (simp add: dict_get_def)
qed


lemma fold_insert_first_seen:
  "fold (\<lambda>x ks. if x \<in> set ks then ks else ks @ [x]) xs acc =
     acc @ filter (\<lambda>y. y \<notin> set acc) (first_seen xs)"
proof (induction xs arbitrary: acc)
  case Nil
  then show ?case by simp
next
  case (Cons x xs)
  show ?case
  proof (cases "x \<in> set acc")
    case True
    then have "filter (\<lambda>y. y \<notin> set acc) (filter (\<lambda>y. y \<noteq> x) (first_seen xs)) =
        filter (\<lambda>y. y \<notin> set acc) (first_seen xs)"
      by (auto intro: filter_cong)
    with True Cons.IH [of acc] show ?thesis by simp
  next
    case False
    have "filter (\<lambda>y. y \<notin> set (acc @ [x])) (first_seen xs) =
        filter (\<lambda>y. y \<notin> set acc) (filter (\<lambda>y. y \<noteq> x) (first_seen xs))"
      by (auto intro: filter_cong)
    with False Cons.IH [of "acc @ [x]"] show ?thesis by simp
  qed
qed

lemma keys_resource_fold:
  "map fst (fold resource_step xs d) =
     fold (\<lambda>x ks. if x \<in> set ks then ks else ks @ [x])
       (filter (\<lambda>t. t \<noteq> ''Desert'') (map terrain xs)) (map fst d)"
proof (induction xs arbitrary: d)
  case Nil
  then show ?case by simp
next
  case (Cons h xs)
  have "map fst (resource_step h d) =
      (if terrain h \<noteq> ''Desert''
       then (if terrain h \<in> set (map fst d) then map fst d else map fst d @ [terrain h])
       else map fst d)"
    by (simp add: resource_step_def keys_dict_set)
  with Cons.IH [of "resource_step h d"] show ?case by simp
qed

lemma keys_resource_pips: "map fst (resource_pips b) = resource_terrain_order b"
  by (simp add: resource_pips_fold keys_resource_fold fold_insert_first_seen
      resource_terrain_order_def)

lemma resource_terrain_order_spec:
  "distinct (resource_terrain_order b)"
  "set (resource_terrain_order b) = resource_terrains b"
  using resource_pips_spec(1,2) [of b] by (simp_all only: keys_resource_pips)

lemma values_resource_pips:
  "map snd (resource_pips b) = map (terrain_total b) (resource_terrain_order b)"
proof -
  have "map snd (resource_pips b) =
      map (\<lambda>k. dict_get (resource_pips b) k 0) (map fst (resource_pips b))"
    by (rule values_by_key [OF resource_pips_spec(1)])
  also have "\<dots> = map (\<lambda>k. dict_get (resource_pips b) k 0) (resource_terrain_order b)"
    by (simp only: keys_resource_pips)
  also have "\<dots> = map (terrain_total b) (resource_terrain_order b)"
    by (rule map_cong [OF refl])
       (simp add: resource_pips_spec(3) resource_terrain_order_spec(2))
  finally show ?thesis .
qed

lemma score_resource_balance_float:
  "score_resource_balance fo b =
     (if resource_terrains b = {} then PyInt 0 else PyFloat (spec_balance_float fo b))"
proof -
  have len: "length (resource_pips b) = length (resource_terrain_order b)"
    using arg_cong [OF keys_resource_pips [of b], of length] by simp
  have empty: "resource_pips b = [] \<longleftrightarrow> resource_terrains b = {}"
    using len resource_terrain_order_spec(2) [of b] by auto
  show ?thesis
    by (simp add: score_resource_balance_def spec_balance_float_def Let_def
        values_resource_pips len empty del: map_map)
qed

lemma score_board_float: "score_board fo b = spec_score_float fo b"
  by (simp add: score_board_def spec_score_float_def Let_def score_resource_balance_float
      score_terrain_clustering_spec score_pip_adjacency_def pip_adjacency_count_spec)

subsection \<open>The score in exact arithmetic\<close>

lemma exact_ops_simps:
  "float_of_int exact_ops n = Num (real_of_int n)"
  "fadd exact_ops (Num x) (Num y) = Num (x + y)"
  "fsub exact_ops (Num x) (Num y) = Num (x - y)"
  "fmul exact_ops (Num x) (Num y) = Num (x * y)"
  "fdiv exact_ops (Num x) (Num y) = (if y = 0 then NaN else Num (x / y))"
  "int_truediv exact_ops a c = (if c = 0 then NaN else Num (real_of_int a / real_of_int c))"
  "fpow exact_ops (Num x) 2 = Num (x\<^sup>2)"
  "fsqrt exact_ops (Num x) = (if 0 \<le> x then Num (sqrt x) else NaN)"
  "flt exact_ops (Num x) (Num y) = (x < y)"
  "flt exact_ops (Num x) PosInf = True"
  "finf exact_ops = PosInf"
  by (simp_all add: exact_ops_def)

lemma x_sum_fold:
  "fold (\<lambda>x s. x_lift2 (+) s x) (map (\<lambda>v. Num (F v)) xs) (Num a) =
     Num (a + sum_list (map F xs))"
  by (induction xs arbitrary: a) (simp_all add: add.assoc)

lemma fsum_exact: "fsum exact_ops (map (\<lambda>v. Num (F v)) xs) = Num (sum_list (map F xs))"
  using x_sum_fold [of F xs 0] by (simp add: exact_ops_def x_sum_def)

lemma spec_balance_float_exact:
  assumes "resource_terrains b \<noteq> {}"
  shows "spec_balance_float exact_ops b = Num (spec_balance_penalty b)"
proof -
  let ?ts = "resource_terrain_order b" and ?T = "resource_terrains b"
  let ?n = "real (card ?T)"
  let ?mean = "(\<Sum>t \<in> ?T. real_of_int (terrain_total b t)) / ?n"
  have fin: "finite ?T" using resource_terrain_order_spec(2) [of b, symmetric] by simp
  have card: "length ?ts = card ?T"
    using distinct_card [OF resource_terrain_order_spec(1) [of b]]
      resource_terrain_order_spec(2) [of b] by simp
  have pos: "0 < card ?T" using assms fin by (simp add: card_gt_0_iff)
  have sums: "sum_list (map (\<lambda>t. G (terrain_total b t)) ?ts) = (\<Sum>t \<in> ?T. G (terrain_total b t))"
    for G :: "int \<Rightarrow> real"
    using sum_list_distinct_conv_sum_set [OF resource_terrain_order_spec(1) [of b],
        of "\<lambda>t. G (terrain_total b t)"]
    by (simp only: resource_terrain_order_spec(2))
  have tot: "real_of_int (sum_list (map (terrain_total b) ?ts)) =
      (\<Sum>t \<in> ?T. real_of_int (terrain_total b t))"
    using sums [of real_of_int] by (simp add: real_of_int_sum_list comp_def)
  have mean: "int_truediv exact_ops (sum_list (map (terrain_total b) ?ts)) (int (length ?ts)) =
      Num ?mean"
    using pos by (simp add: exact_ops_simps card tot)
  have sq: "map (\<lambda>v. fpow exact_ops (fsub exact_ops (float_of_int exact_ops v) (Num ?mean)) 2)
        (map (terrain_total b) ?ts) =
      map (\<lambda>t. Num ((real_of_int (terrain_total b t) - ?mean)\<^sup>2)) ?ts"
    by (simp add: exact_ops_simps)
  have var: "fsum exact_ops
        (map (\<lambda>v. fpow exact_ops (fsub exact_ops (float_of_int exact_ops v) (Num ?mean)) 2)
          (map (terrain_total b) ?ts)) =
      Num (\<Sum>t \<in> ?T. (real_of_int (terrain_total b t) - ?mean)\<^sup>2)"
    unfolding sq
    using fsum_exact [of "\<lambda>t. (real_of_int (terrain_total b t) - ?mean)\<^sup>2" ?ts]
      sums [of "\<lambda>v. (real_of_int v - ?mean)\<^sup>2"]
    by simp
  have nonneg: "0 \<le> (\<Sum>t \<in> ?T. (real_of_int (terrain_total b t) - ?mean)\<^sup>2) / ?n"
    by (simp add: sum_nonneg)
  show ?thesis
    unfolding spec_balance_float_def Let_def mean var
    using pos nonneg assms
    by (simp add: exact_ops_simps card spec_balance_penalty_def Let_def)
qed

lemma spec_balance_penalty_nonneg: "0 \<le> spec_balance_penalty b"
  by (simp add: spec_balance_penalty_def Let_def sum_nonneg)

lemma spec_pip_adjacency_penalty_nonneg: "0 \<le> spec_pip_adjacency_penalty b"
  by (simp add: spec_pip_adjacency_penalty_def)

lemma score_board_exact:
  "score_board exact_ops b =
     Num (10 * real (spec_cluster_penalty b) + 5 * spec_balance_penalty b
            + 3 * spec_pip_adjacency_penalty b)"
proof (cases "resource_terrains b = {}")
  case True
  then show ?thesis
    by (simp add: score_board_float spec_score_float_def exact_ops_simps
        spec_balance_penalty_def spec_pip_adjacency_penalty_def)
next
  case False
  then show ?thesis
    by (simp add: score_board_float spec_score_float_def exact_ops_simps
        spec_balance_float_exact spec_pip_adjacency_penalty_def)
qed

lemma score_board_exact_lower_bound:
  "\<exists>r. score_board exact_ops b = Num r \<and> 10 * real_of_int (score_terrain_clustering b) \<le> r"
  using spec_balance_penalty_nonneg [of b] spec_pip_adjacency_penalty_nonneg [of b]
  by (simp add: score_board_exact score_terrain_clustering_spec)

subsection \<open>The sign of the score\<close>



subsection \<open>The score formula\<close>









section \<open>The generation loop\<close>

lemma candidates_sampled:
  "candidates self k g = Inr (cs, g') \<Longrightarrow> set cs \<subseteq> sampled_boards self"
proof (induction k arbitrary: g cs)
  case 0
  then show ?case by simp
next
  case (Suc k)
  from Suc.prems obtain c g1 cs' where
    c: "generate_candidate_board self g = Inr (c, g1)"
      "candidates self k g1 = Inr (cs', g')" "cs = c # cs'"
    by (auto split: sum.splits)
  from c(1) have "c \<in> sampled_boards self" by (auto simp: sampled_boards_def)
  with Suc.IH [OF c(2)] c(3) show ?case by simp
qed

lemma score_value_board: "b \<in> sampled_boards self \<Longrightarrow> score_board fo b \<in> score_values fo self"
  by (simp add: score_values_def)

lemma score_value_50: "float_of_int fo 50 \<in> score_values fo self"
  by (simp add: score_values_def)

lemma flt_below_inf:
  "scores_comparable fo self \<Longrightarrow> b \<in> sampled_boards self \<Longrightarrow>
     flt fo (score_board fo b) (finf fo)"
  by (simp add: scores_comparable_def)

lemma flt_irrefl:
  "scores_comparable fo self \<Longrightarrow> x \<in> score_values fo self \<Longrightarrow> \<not> flt fo x x"
  by (simp add: scores_comparable_def)

lemma flt_trans:
  "scores_comparable fo self \<Longrightarrow> x \<in> score_values fo self \<Longrightarrow> y \<in> score_values fo self \<Longrightarrow>
     z \<in> score_values fo self \<Longrightarrow> flt fo x y \<Longrightarrow> flt fo y z \<Longrightarrow> flt fo x z"
  unfolding scores_comparable_def by blast

lemma not_flt_trans:
  "scores_comparable fo self \<Longrightarrow> x \<in> score_values fo self \<Longrightarrow> y \<in> score_values fo self \<Longrightarrow>
     z \<in> score_values fo self \<Longrightarrow> \<not> flt fo x y \<Longrightarrow> \<not> flt fo y z \<Longrightarrow> \<not> flt fo x z"
  unfolding scores_comparable_def by blast

lemma flt_asym:
  assumes "scores_comparable fo self" "x \<in> score_values fo self" "y \<in> score_values fo self"
    and "flt fo x y"
  shows "\<not> flt fo y x"
proof
  assume "flt fo y x"
  from flt_trans [OF assms(1,2,3,2) assms(4) this] flt_irrefl [OF assms(1,2)]
  show False by simp
qed

lemma first_best_mem: "first_best fo seen b \<Longrightarrow> b \<in> set seen \<and> hard_ok b"
  unfolding first_best_def by auto

lemma first_best_min:
  "first_best fo seen b \<Longrightarrow> d \<in> set seen \<Longrightarrow> hard_ok d \<Longrightarrow>
     \<not> flt fo (score_board fo d) (score_board fo b)"
  unfolding first_best_def by blast

lemma first_best_snoc_new:
  assumes "hard_ok c"
    and "\<not> flt fo (score_board fo c) (score_board fo c)"
    and "\<forall>d \<in> set seen. hard_ok d \<longrightarrow>
           flt fo (score_board fo c) (score_board fo d) \<and>
           \<not> flt fo (score_board fo d) (score_board fo c)"
  shows "first_best fo (seen @ [c]) c"
  unfolding first_best_def using assms
  by (intro exI [of _ seen] exI [of _ "[]"]) auto

lemma first_best_snoc_keep:
  assumes "first_best fo seen b"
    and "hard_ok c \<longrightarrow> \<not> flt fo (score_board fo c) (score_board fo b)"
  shows "first_best fo (seen @ [c]) b"
proof -
  from assms(1) obtain xs ys where s: "seen = xs @ b # ys" "hard_ok b"
    "\<forall>d \<in> set seen. hard_ok d \<longrightarrow> \<not> flt fo (score_board fo d) (score_board fo b)"
    "\<forall>d \<in> set xs. hard_ok d \<longrightarrow> flt fo (score_board fo b) (score_board fo d)"
    unfolding first_best_def by blast
  have "seen @ [c] = xs @ b # (ys @ [c])" using s(1) by simp
  moreover have "\<forall>d \<in> set (seen @ [c]). hard_ok d \<longrightarrow>
      \<not> flt fo (score_board fo d) (score_board fo b)"
    using s(3) assms(2) by auto
  ultimately show ?thesis unfolding first_best_def using s(2,4) by blast
qed

lemma loop_inv_new:
  assumes cmp: "scores_comparable fo self"
    and sub: "set seen \<subseteq> sampled_boards self" and c: "c \<in> sampled_boards self"
    and inv: "loop_inv fo seen bb bs" and ok: "hard_ok c"
    and lt: "flt fo (score_board fo c) bs"
  shows "first_best fo (seen @ [c]) c"
proof (rule first_best_snoc_new [OF ok])
  show "\<not> flt fo (score_board fo c) (score_board fo c)"
    by (rule flt_irrefl [OF cmp score_value_board [OF c]])
  show "\<forall>d \<in> set seen. hard_ok d \<longrightarrow>
           flt fo (score_board fo c) (score_board fo d) \<and>
           \<not> flt fo (score_board fo d) (score_board fo c)"
  proof (intro ballI impI)
    fix d assume d: "d \<in> set seen" "hard_ok d"
    then have ds: "d \<in> sampled_boards self" using sub by blast
    from inv d obtain b where b: "bb = Some b" "bs = score_board fo b" "first_best fo seen b"
      by (cases bb) (auto simp: loop_inv_def)
    from first_best_mem [OF b(3)] sub have bs: "b \<in> sampled_boards self" by blast
    have n: "\<not> flt fo (score_board fo d) (score_board fo b)"
      by (rule first_best_min [OF b(3) d])
    have l: "flt fo (score_board fo c) (score_board fo b)" using lt b(2) by simp
    have "flt fo (score_board fo c) (score_board fo d)"
    proof (rule ccontr)
      assume "\<not> flt fo (score_board fo c) (score_board fo d)"
      from not_flt_trans [OF cmp score_value_board [OF c] score_value_board [OF ds]
          score_value_board [OF bs] this n] l
      show False by simp
    qed
    moreover from this have "\<not> flt fo (score_board fo d) (score_board fo c)"
      by (rule flt_asym [OF cmp score_value_board [OF c] score_value_board [OF ds]])
    ultimately show "flt fo (score_board fo c) (score_board fo d) \<and>
           \<not> flt fo (score_board fo d) (score_board fo c)" by simp
  qed
qed

lemma loop_inv_keep:
  assumes cmp: "scores_comparable fo self" and c: "c \<in> sampled_boards self"
    and inv: "loop_inv fo seen bb bs"
    and keep: "\<not> hard_ok c \<or> \<not> flt fo (score_board fo c) bs"
  shows "loop_inv fo (seen @ [c]) bb bs"
proof (cases bb)
  case None
  with inv have n: "bs = finf fo" "\<forall>d \<in> set seen. \<not> hard_ok d" by (simp_all add: loop_inv_def)
  from keep n(1) flt_below_inf [OF cmp c] have "\<not> hard_ok c" by auto
  with n None show ?thesis by (simp add: loop_inv_def)
next
  case (Some b)
  with inv have b: "bs = score_board fo b" "first_best fo seen b"
    by (simp_all add: loop_inv_def)
  from keep b(1) have "hard_ok c \<longrightarrow> \<not> flt fo (score_board fo c) (score_board fo b)" by auto
  from first_best_snoc_keep [OF b(2) this] b(1) Some show ?thesis
    by (simp add: loop_inv_def)
qed

lemma no_stop_keep:
  assumes cmp: "scores_comparable fo self"
    and sub: "set seen \<subseteq> sampled_boards self" and c: "c \<in> sampled_boards self"
    and inv: "loop_inv fo seen bb bs" and ns: "no_stop fo seen"
    and keep: "\<not> hard_ok c \<or> \<not> flt fo (score_board fo c) bs"
  shows "no_stop fo (seen @ [c])"
proof (cases "hard_ok c")
  case False
  then show ?thesis using ns by (simp add: no_stop_def)
next
  case True
  with keep have nlt: "\<not> flt fo (score_board fo c) bs" by simp
  have "bb \<noteq> None"
  proof
    assume "bb = None"
    with inv have "bs = finf fo" by (simp add: loop_inv_def)
    with nlt flt_below_inf [OF cmp c] show False by simp
  qed
  with inv obtain b where b: "bs = score_board fo b" "first_best fo seen b"
    by (cases bb) (auto simp: loop_inv_def)
  from first_best_mem [OF b(2)] sub have bs: "b \<in> sampled_boards self" by blast
  from first_best_mem [OF b(2)] ns
  have "\<not> flt fo (score_board fo b) (float_of_int fo 50)" by (simp add: no_stop_def)
  from not_flt_trans [OF cmp score_value_board [OF c] score_value_board [OF bs] score_value_50
      nlt [unfolded b(1)] this]
  show ?thesis using ns by (simp add: no_stop_def)
qed

text \<open>From a run of the loop to the candidates it sampled.\<close>

lemma generate_loop_inv:
  assumes "scores_comparable fo self"
    and "generate_loop fo self n g bb bs = Inr (bb', bs', g')"
    and "loop_inv fo seen bb bs" and "no_stop fo seen"
    and "set seen \<subseteq> sampled_boards self"
  shows "\<exists>cs. candidates self (length cs) g = Inr (cs, g') \<and> length cs \<le> n \<and>
           loop_inv fo (seen @ cs) bb' bs' \<and> no_stop fo (seen @ butlast cs) \<and>
           (length cs = n \<or>
            (cs \<noteq> [] \<and> hard_ok (last cs) \<and>
             flt fo (score_board fo (last cs)) (float_of_int fo 50) \<and> bb' = Some (last cs)))"
  using assms(2-)
proof (induction n arbitrary: g bb bs seen)
  case 0
  then show ?case by (intro exI [of _ "[]"]) simp
next
  case (Suc n)
  note cmp = assms(1)
  from Suc.prems(1) obtain c g1 where samp: "generate_candidate_board self g = Inr (c, g1)"
    by (auto split: sum.splits)
  then have c: "c \<in> sampled_boards self" by (auto simp: sampled_boards_def)
  with Suc.prems(4) have sub: "set (seen @ [c]) \<subseteq> sampled_boards self" by simp
  have ext: "\<exists>cs. candidates self (length cs) g = Inr (cs, g') \<and> length cs \<le> Suc n \<and>
           loop_inv fo (seen @ cs) bb' bs' \<and> no_stop fo (seen @ butlast cs) \<and>
           (length cs = Suc n \<or>
            (cs \<noteq> [] \<and> hard_ok (last cs) \<and>
             flt fo (score_board fo (last cs)) (float_of_int fo 50) \<and> bb' = Some (last cs)))"
    if run: "generate_loop fo self n g1 bb1 bs1 = Inr (bb', bs', g')"
      and inv: "loop_inv fo (seen @ [c]) bb1 bs1" and ns: "no_stop fo (seen @ [c])" for bb1 bs1
  proof -
    from Suc.IH [OF run inv ns sub] obtain cs where cs:
      "candidates self (length cs) g1 = Inr (cs, g')" "length cs \<le> n"
      "loop_inv fo ((seen @ [c]) @ cs) bb' bs'" "no_stop fo ((seen @ [c]) @ butlast cs)"
      "length cs = n \<or>
        (cs \<noteq> [] \<and> hard_ok (last cs) \<and>
         flt fo (score_board fo (last cs)) (float_of_int fo 50) \<and> bb' = Some (last cs))"
      by blast
    have ns': "no_stop fo (seen @ butlast (c # cs))"
    proof (cases "cs = []")
      case True
      then show ?thesis using Suc.prems(3) by simp
    next
      case False
      then show ?thesis using cs(4) by simp
    qed
    show ?thesis
      using cs(1,2,3,5) ns' samp by (intro exI [of _ "c # cs"]) auto
  qed
  show ?case
  proof (cases "hard_ok c \<and> flt fo (score_board fo c) bs")
    case False
    then have keep: "\<not> hard_ok c \<or> \<not> flt fo (score_board fo c) bs" by blast
    have run: "generate_loop fo self n g1 bb bs = Inr (bb', bs', g')"
      using Suc.prems(1) samp keep by (auto simp: hard_ok_def split: if_splits)
    from ext [OF run loop_inv_keep [OF cmp c Suc.prems(2) keep]
        no_stop_keep [OF cmp Suc.prems(4) c Suc.prems(2,3) keep]]
    show ?thesis .
  next
    case True
    then have ok: "hard_ok c" and lt: "flt fo (score_board fo c) bs" by simp_all
    have fb: "first_best fo (seen @ [c]) c"
      by (rule loop_inv_new [OF cmp Suc.prems(4) c Suc.prems(2) ok lt])
    have inv: "loop_inv fo (seen @ [c]) (Some c) (score_board fo c)"
      using fb by (simp add: loop_inv_def)
    show ?thesis
    proof (cases "flt fo (score_board fo c) (float_of_int fo 50)")
      case True
      have "bb' = Some c \<and> bs' = score_board fo c \<and> g' = g1"
        using Suc.prems(1) samp ok lt True by (simp add: hard_ok_def)
      then show ?thesis
        using samp inv ok True Suc.prems(3) by (intro exI [of _ "[c]"]) simp
    next
      case False
      have run: "generate_loop fo self n g1 (Some c) (score_board fo c) = Inr (bb', bs', g')"
        using Suc.prems(1) samp ok lt False by (simp add: hard_ok_def)
      have ns: "no_stop fo (seen @ [c])"
        using Suc.prems(3) False by (simp add: no_stop_def)
      from ext [OF run inv ns] show ?thesis .
    qed
  qed
qed

text \<open>From the candidates to the run of the loop over them.\<close>

lemma generate_loop_run:
  assumes "scores_comparable fo self"
    and "candidates self (length cs) g = Inr (cs, g')" and "length cs \<le> n"
    and "loop_inv fo seen bb bs" and "no_stop fo (seen @ butlast cs)"
    and "length cs = n \<or>
          (cs \<noteq> [] \<and> hard_ok (last cs) \<and>
           flt fo (score_board fo (last cs)) (float_of_int fo 50))"
    and "set seen \<subseteq> sampled_boards self"
  shows "\<exists>bb' bs'. generate_loop fo self n g bb bs = Inr (bb', bs', g') \<and>
           loop_inv fo (seen @ cs) bb' bs'"
  using assms(2-)
proof (induction cs arbitrary: n g seen bb bs)
  case Nil
  then show ?case by simp
next
  case (Cons c cs)
  note cmp = assms(1)
  from Cons.prems(2) obtain m where n: "n = Suc m" by (cases n) simp_all
  from Cons.prems(1) obtain g1 where
    samp: "generate_candidate_board self g = Inr (c, g1)" and
    rest: "candidates self (length cs) g1 = Inr (cs, g')"
    by (auto split: sum.splits)
  from samp have c: "c \<in> sampled_boards self" by (auto simp: sampled_boards_def)
  with Cons.prems(6) have sub: "set (seen @ [c]) \<subseteq> sampled_boards self" by simp
  from Cons.prems(2) n have len: "length cs \<le> m" by simp
  have seen_ns: "no_stop fo seen" using Cons.prems(4) by (simp add: no_stop_def)
  have c50: "\<not> flt fo (score_board fo c) (float_of_int fo 50)" if "cs \<noteq> []" "hard_ok c"
    using Cons.prems(4) that by (simp add: no_stop_def)
  have stop: "length cs = m \<or>
      (cs \<noteq> [] \<and> hard_ok (last cs) \<and> flt fo (score_board fo (last cs)) (float_of_int fo 50))"
    if "cs = [] \<longrightarrow> \<not> (hard_ok c \<and> flt fo (score_board fo c) (float_of_int fo 50))"
    using Cons.prems(5) n that by (cases "cs = []") auto
  have continue: "\<exists>bb' bs'. generate_loop fo self m g1 bb1 bs1 = Inr (bb', bs', g') \<and>
        loop_inv fo (seen @ c # cs) bb' bs'"
    if inv: "loop_inv fo (seen @ [c]) bb1 bs1" and ns: "no_stop fo (seen @ [c])" for bb1 bs1
  proof -
    have ns': "no_stop fo ((seen @ [c]) @ butlast cs)"
    proof (cases "cs = []")
      case True
      then show ?thesis using ns by simp
    next
      case False
      then show ?thesis using Cons.prems(4) by simp
    qed
    have "cs = [] \<longrightarrow> \<not> (hard_ok c \<and> flt fo (score_board fo c) (float_of_int fo 50))"
      using ns by (simp add: no_stop_def)
    from Cons.IH [OF rest len inv ns' stop [OF this] sub] show ?thesis by simp
  qed
  show ?case
  proof (cases "hard_ok c \<and> flt fo (score_board fo c) bs")
    case False
    then have keep: "\<not> hard_ok c \<or> \<not> flt fo (score_board fo c) bs" by blast
    have step: "generate_loop fo self n g bb bs = generate_loop fo self m g1 bb bs"
      using n samp keep by (auto simp: hard_ok_def)
    from continue [OF loop_inv_keep [OF cmp c Cons.prems(3) keep]
        no_stop_keep [OF cmp Cons.prems(6) c Cons.prems(3) seen_ns keep]]
    show ?thesis unfolding step .
  next
    case True
    then have ok: "hard_ok c" and lt: "flt fo (score_board fo c) bs" by simp_all
    have fb: "first_best fo (seen @ [c]) c"
      by (rule loop_inv_new [OF cmp Cons.prems(6) c Cons.prems(3) ok lt])
    have inv: "loop_inv fo (seen @ [c]) (Some c) (score_board fo c)"
      using fb by (simp add: loop_inv_def)
    show ?thesis
    proof (cases "flt fo (score_board fo c) (float_of_int fo 50)")
      case True
      with c50 ok have "cs = []" by blast
      with rest have g: "g' = g1" by simp
      have "generate_loop fo self n g bb bs = Inr (Some c, score_board fo c, g1)"
        using n samp ok lt True by (simp add: hard_ok_def)
      with inv g \<open>cs = []\<close> show ?thesis by simp
    next
      case False
      have step: "generate_loop fo self n g bb bs =
          generate_loop fo self m g1 (Some c) (score_board fo c)"
        using n samp ok lt False by (simp add: hard_ok_def)
      have ns: "no_stop fo (seen @ [c])"
        using seen_ns False by (simp add: no_stop_def)
      from continue [OF inv ns] show ?thesis unfolding step .
    qed
  qed
qed

lemma generate_loop_all_rejected:
  "candidates self n g = Inr (cs, g1) \<Longrightarrow> \<forall>c \<in> set cs. \<not> hard_ok c \<Longrightarrow>
     generate_loop fo self n g bb bs = Inr (bb, bs, g1)"
proof (induction n arbitrary: g cs)
  case 0
  then show ?case by simp
next
  case (Suc n)
  from Suc.prems(1) obtain c g' cs' where
    c: "generate_candidate_board self g = Inr (c, g')"
      "candidates self n g' = Inr (cs', g1)" "cs = c # cs'"
    by (auto split: sum.splits)
  from Suc.prems(2) c(3) have bad: "\<not> hard_ok c" "\<forall>c \<in> set cs'. \<not> hard_ok c" by simp_all
  from Suc.IH [OF c(2) bad(2)] have "generate_loop fo self n g' bb bs = Inr (bb, bs, g1)" .
  with c(1) bad(1) show ?case by (auto simp: hard_ok_def)
qed

lemma generate_board_fallback:
  assumes "candidates self (nat max_attempts) g = Inr (cs, g1)"
    and "\<forall>c \<in> set cs. \<not> hard_ok c"
  shows "generate_board fo self max_attempts g = generate_candidate_board self g1"
  using generate_loop_all_rejected [OF assms, of fo None "finf fo"]
  by (simp add: generate_board_def)

lemma generate_loop_unconfigured:
  "terrains self = None \<Longrightarrow>
     generate_loop fo self n g bb bs =
       (case n of 0 \<Rightarrow> Inr (bb, bs, g) | Suc _ \<Rightarrow> Inl AttributeError)"
  by (cases n) (simp_all add: generate_candidate_board_def)

lemma generate_board_unconfigured:
  "terrains self = None \<Longrightarrow> generate_board fo self max_attempts g = Inl AttributeError"
  by (cases "nat max_attempts")
     (simp_all add: generate_board_def generate_loop_unconfigured generate_candidate_board_def)

lemma unknown_name_unconfigured:
  "name \<notin> {''base'', ''5-6player'', ''custom''} \<Longrightarrow>
     CatanBoardGenerator name = \<lparr>expansion = name, terrains = None, numbers = None\<rparr>"
  by (simp add: CatanBoardGenerator_def setup_distribution_def)

lemma generate_loop_total:
  assumes "\<And>g. \<exists>b g'. generate_candidate_board self g = Inr (b, g')"
  shows "\<exists>r. generate_loop fo self n g bb bs = Inr r"
proof (induction n arbitrary: g bb bs)
  case 0
  then show ?case by simp
next
  case (Suc n)
  from assms [of g] obtain b g' where "generate_candidate_board self g = Inr (b, g')" by blast
  then show ?case using Suc.IH by simp
qed

lemma generate_board_total:
  assumes "\<And>g. \<exists>b g'. generate_candidate_board self g = Inr (b, g')"
  shows "\<exists>b g'. generate_board fo self max_attempts g = Inr (b, g')"
proof -
  from generate_loop_total [OF assms, of fo "nat max_attempts" g None "finf fo"]
  obtain bb bs g1 where
    "generate_loop fo self (nat max_attempts) g None (finf fo) = Inr (bb, bs, g1)"
    by (metis prod_cases3)
  then show ?thesis using assms [of g1]
    by (cases bb) (auto simp: generate_board_def)
qed

lemma scores_comparable_exact: "scores_comparable exact_ops self"
proof -
  have num: "\<exists>r. x = Num r" if "x \<in> score_values exact_ops self" for x
    using that by (auto simp: score_values_def score_board_exact exact_ops_simps)
  have "flt exact_ops (score_board exact_ops b) (finf exact_ops)" for b
    by (simp add: score_board_exact exact_ops_simps)
  moreover have "\<not> flt exact_ops x x" if "x \<in> score_values exact_ops self" for x
    using num [OF that] by (auto simp: exact_ops_simps)
  moreover have "(flt exact_ops x y \<and> flt exact_ops y z \<longrightarrow> flt exact_ops x z) \<and>
      (\<not> flt exact_ops x y \<and> \<not> flt exact_ops y z \<longrightarrow> \<not> flt exact_ops x z)"
    if "x \<in> score_values exact_ops self" "y \<in> score_values exact_ops self"
      "z \<in> score_values exact_ops self" for x y z
    using num [OF that(1)] num [OF that(2)] num [OF that(3)]
    by (auto simp: exact_ops_simps)
  ultimately show ?thesis unfolding scores_comparable_def by blast
qed

subsection \<open>Concrete runs on the base profile\<close>

text \<open>
  The shuffle of a list given by its elements is computed step by step, with the loop
  index as a numeral. The lemmas below compute the boards sampled for the base profile
  from two random sources, the hard checks on them and bounds on their scores.
\<close>

lemma shuffle_loop_numeral:
  "shuffle_loop (numeral k) x g =
     shuffle_loop (pred_numeral k)
       (x[numeral k := x ! (shd g mod (numeral k + 1)),
          shd g mod (numeral k + 1) := x ! numeral k]) (stl g)"
  by (simp add: numeral_eq_Suc randbelow_def)

lemma shuffle_loop_one:
  "shuffle_loop (Suc 0) x g =
     (x[Suc 0 := x ! (shd g mod 2), shd g mod 2 := x ! Suc 0], stl g)"
  by (simp add: randbelow_def numeral_2_eq_2)

lemma list_update_Cons_numeral: "(x # xs)[numeral k := y] = x # xs[pred_numeral k := y]"
  by (simp add: numeral_eq_Suc)

lemma shuffle_as_loop: "length x = Suc n \<Longrightarrow> shuffle x g = shuffle_loop n x g"
  by (simp add: shuffle_def)

lemmas shuffle_eval = shuffle_loop_numeral shuffle_loop_one list_update_Cons_numeral

lemma base_pools:
  "terrains (CatanBoardGenerator ''base'') = Some
    [''Forest'', ''Forest'', ''Forest'', ''Forest'', ''Pasture'', ''Pasture'',
     ''Pasture'', ''Pasture'', ''Field'', ''Field'', ''Field'', ''Field'',
     ''Hill'', ''Hill'', ''Hill'', ''Mountain'', ''Mountain'', ''Mountain'',
     ''Desert'']"
  "numbers (CatanBoardGenerator ''base'') = Some [2, 3, 3, 4, 4, 5, 5, 6, 6, 8, 8, 9, 9, 10, 10, 11, 11, 12]"
  by (simp_all add: CatanBoardGenerator_def setup_distribution_def)

lemma sample_board_a:
  "generate_candidate_board (CatanBoardGenerator ''base'') (siterate (\<lambda>n. n + 14) 5) =
     Inr (board_a, siterate (\<lambda>n. n + 14) 495)"
proof -
  have t: "shuffle
    [''Forest'', ''Forest'', ''Forest'', ''Forest'', ''Pasture'', ''Pasture'',
     ''Pasture'', ''Pasture'', ''Field'', ''Field'', ''Field'', ''Field'',
     ''Hill'', ''Hill'', ''Hill'', ''Mountain'', ''Mountain'', ''Mountain'',
     ''Desert'']
    (siterate (\<lambda>n. n + 14) 5) =
    ([''Forest'', ''Forest'', ''Pasture'', ''Forest'', ''Pasture'', ''Field'',
     ''Hill'', ''Field'', ''Field'', ''Hill'', ''Hill'', ''Pasture'',
     ''Field'', ''Desert'', ''Mountain'', ''Mountain'', ''Mountain'', ''Forest'',
     ''Pasture''],
     siterate (\<lambda>n. n + 14) 257)"
    by (subst shuffle_as_loop [of _ 18]) (simp_all add: shuffle_eval del: shuffle_loop.simps)
  have n: "shuffle [2, 3, 3, 4, 4, 5, 5, 6, 6, 8, 8, 9, 9, 10, 10, 11, 11, 12]
    (siterate (\<lambda>n. n + 14) 257) =
    ([2, 8, 9, 3, 4, 5, 6, 6, 9, 8, 4, 11, 3, 12, 10, 10, 11, 5], siterate (\<lambda>n. n + 14) 495)"
    by (subst shuffle_as_loop [of _ 17]) (simp_all add: shuffle_eval del: shuffle_loop.simps)
  have a: "assign_loop 0
    [''Forest'', ''Forest'', ''Pasture'', ''Forest'', ''Pasture'', ''Field'',
     ''Hill'', ''Field'', ''Field'', ''Hill'', ''Hill'', ''Pasture'',
     ''Field'', ''Desert'', ''Mountain'', ''Mountain'', ''Mountain'', ''Forest'',
     ''Pasture'']
    [2, 8, 9, 3, 4, 5, 6, 6, 9, 8, 4, 11, 3, 12, 10, 10, 11, 5] 0 [] = Inr board_a"
    unfolding board_a_def by simp
  show ?thesis
    by (simp add: generate_candidate_board_def base_pools t n a del: assign_loop.simps)
qed

lemma sample_board_b:
  "generate_candidate_board (CatanBoardGenerator ''base'') (siterate (\<lambda>n. n + 14) 495) =
     Inr (board_b, siterate (\<lambda>n. n + 14) 985)"
proof -
  have t: "shuffle
    [''Forest'', ''Forest'', ''Forest'', ''Forest'', ''Pasture'', ''Pasture'',
     ''Pasture'', ''Pasture'', ''Field'', ''Field'', ''Field'', ''Field'',
     ''Hill'', ''Hill'', ''Hill'', ''Mountain'', ''Mountain'', ''Mountain'',
     ''Desert'']
    (siterate (\<lambda>n. n + 14) 495) =
    ([''Forest'', ''Forest'', ''Field'', ''Pasture'', ''Hill'', ''Pasture'',
     ''Field'', ''Mountain'', ''Hill'', ''Desert'', ''Forest'', ''Mountain'',
     ''Pasture'', ''Mountain'', ''Field'', ''Field'', ''Hill'', ''Pasture'',
     ''Forest''],
     siterate (\<lambda>n. n + 14) 747)"
    by (subst shuffle_as_loop [of _ 18]) (simp_all add: shuffle_eval del: shuffle_loop.simps)
  have n: "shuffle [2, 3, 3, 4, 4, 5, 5, 6, 6, 8, 8, 9, 9, 10, 10, 11, 11, 12]
    (siterate (\<lambda>n. n + 14) 747) =
    ([3, 3, 6, 5, 4, 9, 11, 11, 2, 8, 10, 4, 9, 5, 12, 6, 10, 8], siterate (\<lambda>n. n + 14) 985)"
    by (subst shuffle_as_loop [of _ 17]) (simp_all add: shuffle_eval del: shuffle_loop.simps)
  have a: "assign_loop 0
    [''Forest'', ''Forest'', ''Field'', ''Pasture'', ''Hill'', ''Pasture'',
     ''Field'', ''Mountain'', ''Hill'', ''Desert'', ''Forest'', ''Mountain'',
     ''Pasture'', ''Mountain'', ''Field'', ''Field'', ''Hill'', ''Pasture'',
     ''Forest'']
    [3, 3, 6, 5, 4, 9, 11, 11, 2, 8, 10, 4, 9, 5, 12, 6, 10, 8] 0 [] = Inr board_b"
    unfolding board_b_def by simp
  show ?thesis
    by (simp add: generate_candidate_board_def base_pools t n a del: assign_loop.simps)
qed

lemma sample_board_z:
  "generate_candidate_board (CatanBoardGenerator ''base'') (sconst 0) =
     Inr (board_z, sconst 0)"
proof -
  have t: "shuffle
    [''Forest'', ''Forest'', ''Forest'', ''Forest'', ''Pasture'', ''Pasture'',
     ''Pasture'', ''Pasture'', ''Field'', ''Field'', ''Field'', ''Field'',
     ''Hill'', ''Hill'', ''Hill'', ''Mountain'', ''Mountain'', ''Mountain'',
     ''Desert'']
    (sconst 0) =
    ([''Forest'', ''Forest'', ''Forest'', ''Pasture'', ''Pasture'', ''Pasture'',
     ''Pasture'', ''Field'', ''Field'', ''Field'', ''Field'', ''Hill'',
     ''Hill'', ''Hill'', ''Mountain'', ''Mountain'', ''Mountain'', ''Desert'',
     ''Forest''],
     sconst 0)"
    by (subst shuffle_as_loop [of _ 18]) (simp_all add: shuffle_eval del: shuffle_loop.simps)
  have n: "shuffle [2, 3, 3, 4, 4, 5, 5, 6, 6, 8, 8, 9, 9, 10, 10, 11, 11, 12]
    (sconst 0) =
    ([3, 3, 4, 4, 5, 5, 6, 6, 8, 8, 9, 9, 10, 10, 11, 11, 12, 2], sconst 0)"
    by (subst shuffle_as_loop [of _ 17]) (simp_all add: shuffle_eval del: shuffle_loop.simps)
  have a: "assign_loop 0
    [''Forest'', ''Forest'', ''Forest'', ''Pasture'', ''Pasture'', ''Pasture'',
     ''Pasture'', ''Field'', ''Field'', ''Field'', ''Field'', ''Hill'',
     ''Hill'', ''Hill'', ''Mountain'', ''Mountain'', ''Mountain'', ''Desert'',
     ''Forest'']
    [3, 3, 4, 4, 5, 5, 6, 6, 8, 8, 9, 9, 10, 10, 11, 11, 12, 2] 0 [] = Inr board_z"
    unfolding board_z_def by simp
  show ?thesis
    by (simp add: generate_candidate_board_def base_pools t n a del: assign_loop.simps)
qed

lemmas check_eval = hard_ok_def check_adjacent_high_numbers_def high_value_positions_def
  adjacency_get_def adjacency_def edge_positions_def

lemma board_a_ok: "hard_ok board_a"
  by (simp add: board_a_def check_eval)

lemma board_b_ok: "hard_ok board_b"
  by (simp add: board_b_def check_eval)

lemma board_z_bad: "\<not> check_adjacent_high_numbers board_z" "\<not> check_desert_placement board_z"
  by (simp_all add: board_z_def check_eval)

lemma cluster_a: "score_terrain_clustering board_a = 10"
  by (simp add: score_terrain_clustering_def same_terrain_count_def board_a_def
      adjacency_get_def adjacency_def)

lemma cluster_b: "score_terrain_clustering board_b = 0"
  by (simp add: score_terrain_clustering_def same_terrain_count_def board_b_def
      adjacency_get_def adjacency_def)

lemma pips_b: "resource_pips board_b =
   [(''Forest'', 14), (''Field'', 12), (''Pasture'', 14), (''Hill'', 9), (''Mountain'', 9)]"
  by (simp add: resource_pips_def board_b_def dict_get_def get_pip_count_def pip_map_def)

lemma pip_adjacency_b: "pip_adjacency_count board_b = 12"
  by (simp add: pip_adjacency_count_def pip_adjacency_inner_def truthy_def board_b_def
      adjacency_get_def adjacency_def get_pip_count_def pip_map_def)

lemma balance_b: "score_resource_balance exact_ops board_b = PyFloat (Num (sqrt (126 / 25)))"
  by (simp add: score_resource_balance_def pips_b exact_ops_def x_sum_def power2_eq_square)

lemma score_a_high: "\<exists>r. score_board exact_ops board_a = Num r \<and> 100 \<le> r"
  using score_board_exact_lower_bound [of board_a] by (simp add: cluster_a)

lemma score_b_low: "\<exists>r. score_board exact_ops board_b = Num r \<and> r < 33"
proof -
  have "sqrt (126 / 25) < sqrt (3\<^sup>2)"
    by (subst real_sqrt_less_iff) simp
  then have "sqrt (126 / 25) < 3" by simp
  then show ?thesis
    by (simp add: score_board_def score_pip_adjacency_def cluster_b balance_b pip_adjacency_b
        exact_ops_simps)
qed

lemma generate_loop_witness_run:
  "generate_loop exact_ops (CatanBoardGenerator ''base'') (nat 3) (siterate (\<lambda>n. n + 14) 5)
       None (finf exact_ops) =
     Inr (Some board_b, score_board exact_ops board_b, siterate (\<lambda>n. n + 14) 985)"
proof -
  from score_a_high obtain ra where a: "score_board exact_ops board_a = Num ra" "100 \<le> ra"
    by blast
  from score_b_low obtain rb where b: "score_board exact_ops board_b = Num rb" "rb < 33"
    by blast
  have ok: "check_adjacent_high_numbers board_a" "check_desert_placement board_a"
    "check_adjacent_high_numbers board_b" "check_desert_placement board_b"
    using board_a_ok board_b_ok by (simp_all add: hard_ok_def)
  show ?thesis
    using a(2) b(2)
    by (simp add: numeral_3_eq_3 sample_board_a sample_board_b ok a(1) b(1) exact_ops_simps
        del: check_desert_placement.simps)
qed

lemma candidates_witness_run:
  "candidates (CatanBoardGenerator ''base'') (length [board_a, board_b])
       (siterate (\<lambda>n. n + 14) 5) =
     Inr ([board_a, board_b], siterate (\<lambda>n. n + 14) 985)"
  by (simp add: sample_board_a sample_board_b)

subsection \<open>The validated path\<close>

text \<open>
  C1. Let the scores of the boards that can be sampled be numbers, so that float
  comparison orders them. First: if the loop of \<open>generate_board\<close> ends with a non-empty
  \<open>best_board\<close>, then \<open>generate_board\<close> returns it, it passes both hard checks, and
  the candidates \<open>cs\<close> sampled by the iterations that ran, at most \<open>max_attempts\<close> of
  them, are such that the returned board is the first candidate of \<open>cs\<close> with the
  least score among those that pass both checks; no passing candidate before the last
  one has a score below 50; and either all \<open>max_attempts\<close> iterations ran or the last
  candidate is the returned board and its score is below 50. Second, in the other
  direction: whenever the sampler yields candidates \<open>ds\<close> of which at least one passes
  both checks, none of which but possibly the last passes with a score below 50, and
  which are \<open>max_attempts\<close> many or end with a passing candidate of score below 50,
  then the loop runs over exactly these candidates and ends with the first
  least-score passing candidate of \<open>ds\<close> as \<open>best_board\<close> and with its score as
  \<open>best_score\<close>, and \<open>generate_board\<close> returns that board.
\<close>

theorem generate_board_validated_path:
  assumes "scores_comparable fo self"
  shows
    "(generate_loop fo self (nat max_attempts) g None (finf fo) = Inr (Some b, s, g') \<and>
      b \<noteq> [] \<longrightarrow>
        generate_board fo self max_attempts g = Inr (b, g') \<and> s = score_board fo b \<and>
        check_adjacent_high_numbers b \<and> check_desert_placement b \<and>
        (\<exists>cs. candidates self (length cs) g = Inr (cs, g') \<and>
           length cs \<le> nat max_attempts \<and>
           first_best fo cs b \<and>
           (\<forall>c \<in> set (butlast cs).
              hard_ok c \<longrightarrow> \<not> flt fo (score_board fo c) (float_of_int fo 50)) \<and>
           (length cs = nat max_attempts \<or>
            (flt fo (score_board fo b) (float_of_int fo 50) \<and> b = last cs)))) \<and>
     (candidates self (length ds) g = Inr (ds, g1) \<and>
      length ds \<le> nat max_attempts \<and>
      (\<forall>c \<in> set (butlast ds).
         hard_ok c \<longrightarrow> \<not> flt fo (score_board fo c) (float_of_int fo 50)) \<and>
      (length ds = nat max_attempts \<or>
       (ds \<noteq> [] \<and> hard_ok (last ds) \<and>
        flt fo (score_board fo (last ds)) (float_of_int fo 50))) \<and>
      (\<exists>c \<in> set ds. hard_ok c) \<longrightarrow>
        (\<exists>d. first_best fo ds d \<and>
           generate_loop fo self (nat max_attempts) g None (finf fo) =
             Inr (Some d, score_board fo d, g1) \<and>
           (d \<noteq> [] \<longrightarrow> generate_board fo self max_attempts g = Inr (d, g1))))"
proof -
  have inv0: "loop_inv fo [] None (finf fo)" by (simp add: loop_inv_def)
  have ns0: "no_stop fo []" by (simp add: no_stop_def)
  have sub0: "set [] \<subseteq> sampled_boards self" by simp
  have first: "generate_board fo self max_attempts g = Inr (b, g') \<and> s = score_board fo b \<and>
        check_adjacent_high_numbers b \<and> check_desert_placement b \<and>
        (\<exists>cs. candidates self (length cs) g = Inr (cs, g') \<and>
           length cs \<le> nat max_attempts \<and>
           first_best fo cs b \<and>
           (\<forall>c \<in> set (butlast cs).
              hard_ok c \<longrightarrow> \<not> flt fo (score_board fo c) (float_of_int fo 50)) \<and>
           (length cs = nat max_attempts \<or>
            (flt fo (score_board fo b) (float_of_int fo 50) \<and> b = last cs)))"
    if run: "generate_loop fo self (nat max_attempts) g None (finf fo) = Inr (Some b, s, g')"
      and ne: "b \<noteq> []"
  proof -
    from generate_loop_inv [OF assms run inv0 ns0 sub0] obtain cs where cs:
      "candidates self (length cs) g = Inr (cs, g')" "length cs \<le> nat max_attempts"
      "loop_inv fo cs (Some b) s" "no_stop fo (butlast cs)"
      "length cs = nat max_attempts \<or>
        (cs \<noteq> [] \<and> hard_ok (last cs) \<and>
         flt fo (score_board fo (last cs)) (float_of_int fo 50) \<and> Some b = Some (last cs))"
      by auto
    from cs(3) have fb: "first_best fo cs b" and s: "s = score_board fo b"
      by (simp_all add: loop_inv_def)
    from fb have ok: "hard_ok b" by (simp add: first_best_mem)
    have ret: "generate_board fo self max_attempts g = Inr (b, g')"
      using run ne by (simp add: generate_board_def)
    have stop: "\<forall>c \<in> set (butlast cs).
        hard_ok c \<longrightarrow> \<not> flt fo (score_board fo c) (float_of_int fo 50)"
      using cs(4) by (simp add: no_stop_def)
    have fin: "length cs = nat max_attempts \<or>
        (flt fo (score_board fo b) (float_of_int fo 50) \<and> b = last cs)"
      using cs(5) by auto
    from ret s ok cs(1,2) fb stop fin show ?thesis
      unfolding hard_ok_def by blast
  qed
  have second: "\<exists>d. first_best fo ds d \<and>
           generate_loop fo self (nat max_attempts) g None (finf fo) =
             Inr (Some d, score_board fo d, g1) \<and>
           (d \<noteq> [] \<longrightarrow> generate_board fo self max_attempts g = Inr (d, g1))"
    if cand: "candidates self (length ds) g = Inr (ds, g1)"
      and len: "length ds \<le> nat max_attempts"
      and early: "\<forall>c \<in> set (butlast ds).
         hard_ok c \<longrightarrow> \<not> flt fo (score_board fo c) (float_of_int fo 50)"
      and stop: "length ds = nat max_attempts \<or>
       (ds \<noteq> [] \<and> hard_ok (last ds) \<and>
        flt fo (score_board fo (last ds)) (float_of_int fo 50))"
      and some: "\<exists>c \<in> set ds. hard_ok c"
  proof -
    from early have ns: "no_stop fo ([] @ butlast ds)" by (simp add: no_stop_def)
    from generate_loop_run [OF assms cand len inv0 ns stop sub0] obtain bb' bs' where
      run: "generate_loop fo self (nat max_attempts) g None (finf fo) = Inr (bb', bs', g1)"
      and inv: "loop_inv fo ds bb' bs'"
      by auto
    from inv some obtain d where d: "bb' = Some d" "bs' = score_board fo d" "first_best fo ds d"
      by (cases bb') (auto simp: loop_inv_def)
    have "d \<noteq> [] \<longrightarrow> generate_board fo self max_attempts g = Inr (d, g1)"
      using run d(1) by (simp add: generate_board_def)
    with run d show ?thesis by blast
  qed
  from first second show ?thesis by blast
qed

theorem generate_board_validated_path_witness:
  "scores_comparable exact_ops (CatanBoardGenerator ''base'') \<and>
   generate_board exact_ops (CatanBoardGenerator ''base'') 3 (siterate (\<lambda>n. n + 14) 5) =
     Inr (board_b, siterate (\<lambda>n. n + 14) 985) \<and>
   check_adjacent_high_numbers board_b \<and> check_desert_placement board_b \<and>
   (\<exists>cs. candidates (CatanBoardGenerator ''base'') (length cs) (siterate (\<lambda>n. n + 14) 5) =
           Inr (cs, siterate (\<lambda>n. n + 14) 985) \<and>
        length cs \<le> nat 3 \<and>
        first_best exact_ops cs board_b \<and>
        (\<forall>c \<in> set (butlast cs).
           hard_ok c \<longrightarrow>
             \<not> flt exact_ops (score_board exact_ops c) (float_of_int exact_ops 50)) \<and>
        (length cs = nat 3 \<or>
         (flt exact_ops (score_board exact_ops board_b) (float_of_int exact_ops 50) \<and>
          board_b = last cs))) \<and>
   (\<exists>d. first_best exact_ops [board_a, board_b] d \<and>
      generate_loop exact_ops (CatanBoardGenerator ''base'') (nat 3)
          (siterate (\<lambda>n. n + 14) 5) None (finf exact_ops) =
        Inr (Some d, score_board exact_ops d, siterate (\<lambda>n. n + 14) 985) \<and>
      (d \<noteq> [] \<longrightarrow>
         generate_board exact_ops (CatanBoardGenerator ''base'') 3 (siterate (\<lambda>n. n + 14) 5) =
           Inr (d, siterate (\<lambda>n. n + 14) 985))) \<and>
   \<not> flt exact_ops (score_board exact_ops board_a) (float_of_int exact_ops 50) \<and>
   generate_board exact_ops (CatanBoardGenerator ''base'') 1 (siterate (\<lambda>n. n + 14) 5) =
     Inr (board_a, siterate (\<lambda>n. n + 14) 495)"
proof -
  let ?self = "CatanBoardGenerator ''base''"
  have cmp: "scores_comparable exact_ops ?self" by (rule scores_comparable_exact)
  have ne: "board_b \<noteq> []" by (simp add: board_b_def)
  from score_a_high obtain ra where a: "score_board exact_ops board_a = Num ra" "100 \<le> ra"
    by blast
  from score_b_low obtain rb where b: "score_board exact_ops board_b = Num rb" "rb < 33"
    by blast
  have len: "length [board_a, board_b] \<le> nat 3" by simp
  have early: "\<forall>c \<in> set (butlast [board_a, board_b]).
      hard_ok c \<longrightarrow> \<not> flt exact_ops (score_board exact_ops c) (float_of_int exact_ops 50)"
    using a by (simp add: exact_ops_simps)
  have stop: "length [board_a, board_b] = nat 3 \<or>
      ([board_a, board_b] \<noteq> [] \<and> hard_ok (last [board_a, board_b]) \<and>
       flt exact_ops (score_board exact_ops (last [board_a, board_b]))
         (float_of_int exact_ops 50))"
    using b board_b_ok by (simp add: exact_ops_simps)
  have some: "\<exists>c \<in> set [board_a, board_b]. hard_ok c" using board_a_ok by simp
  note inst = generate_board_validated_path [OF cmp, of 3 "siterate (\<lambda>n. n + 14) 5"
      board_b "score_board exact_ops board_b" "siterate (\<lambda>n. n + 14) 985"
      "[board_a, board_b]" "siterate (\<lambda>n. n + 14) 985"]
  from inst generate_loop_witness_run ne
  have first: "generate_board exact_ops ?self 3 (siterate (\<lambda>n. n + 14) 5) =
       Inr (board_b, siterate (\<lambda>n. n + 14) 985) \<and>
     check_adjacent_high_numbers board_b \<and> check_desert_placement board_b \<and>
     (\<exists>cs. candidates ?self (length cs) (siterate (\<lambda>n. n + 14) 5) =
           Inr (cs, siterate (\<lambda>n. n + 14) 985) \<and>
        length cs \<le> nat 3 \<and>
        first_best exact_ops cs board_b \<and>
        (\<forall>c \<in> set (butlast cs).
           hard_ok c \<longrightarrow>
             \<not> flt exact_ops (score_board exact_ops c) (float_of_int exact_ops 50)) \<and>
        (length cs = nat 3 \<or>
         (flt exact_ops (score_board exact_ops board_b) (float_of_int exact_ops 50) \<and>
          board_b = last cs)))"
    by blast
  from inst candidates_witness_run len early stop some
  have second: "\<exists>d. first_best exact_ops [board_a, board_b] d \<and>
      generate_loop exact_ops ?self (nat 3) (siterate (\<lambda>n. n + 14) 5) None (finf exact_ops) =
        Inr (Some d, score_board exact_ops d, siterate (\<lambda>n. n + 14) 985) \<and>
      (d \<noteq> [] \<longrightarrow>
         generate_board exact_ops ?self 3 (siterate (\<lambda>n. n + 14) 5) =
           Inr (d, siterate (\<lambda>n. n + 14) 985))"
    by blast
  have one: "candidates ?self (length [board_a]) (siterate (\<lambda>n. n + 14) 5) =
      Inr ([board_a], siterate (\<lambda>n. n + 14) 495)"
    by (simp add: sample_board_a)
  have high: "\<not> flt exact_ops (score_board exact_ops board_a) (float_of_int exact_ops 50)"
    using a by (simp add: exact_ops_simps)
  from generate_board_validated_path [OF cmp, of 1 "siterate (\<lambda>n. n + 14) 5"
      board_a "score_board exact_ops board_a" "siterate (\<lambda>n. n + 14) 495"
      "[board_a]" "siterate (\<lambda>n. n + 14) 495"] one board_a_ok
  obtain d where d: "first_best exact_ops [board_a] d"
    "d \<noteq> [] \<longrightarrow> generate_board exact_ops ?self 1 (siterate (\<lambda>n. n + 14) 5) =
       Inr (d, siterate (\<lambda>n. n + 14) 495)"
    by auto
  from first_best_mem [OF d(1)] have "d = board_a" by simp
  moreover have "board_a \<noteq> []" by (simp add: board_a_def)
  ultimately have third: "generate_board exact_ops ?self 1 (siterate (\<lambda>n. n + 14) 5) =
      Inr (board_a, siterate (\<lambda>n. n + 14) 495)"
    using d(2) by simp
  from cmp first second high third show ?thesis by blast
qed

subsection \<open>The fallback path\<close>

lemma profile_sample_total:
  assumes "name \<in> {''base'', ''5-6player'', ''custom''}"
  shows "\<exists>b g'. generate_candidate_board (CatanBoardGenerator name) g = Inr (b, g')"
proof -
  from profile_pools [OF assms] obtain ts ns where
    p: "terrains (CatanBoardGenerator name) = Some ts"
       "numbers (CatanBoardGenerator name) = Some ns"
       "length (filter (\<lambda>t. t \<noteq> ''Desert'') ts) = length ns"
    by blast
  from generate_candidate_board_ok [OF p, of g] show ?thesis by blast
qed

lemma candidates_sconst_0:
  "candidates (CatanBoardGenerator ''base'') n (sconst 0) = Inr (replicate n board_z, sconst 0)"
proof (induction n)
  case 0
  show ?case by (simp only: candidates.simps replicate_0)
next
  case (Suc n)
  show ?case
    by (simp only: candidates.simps sample_board_z Suc.IH sum.case prod.case replicate_Suc)
qed

lemma generate_sconst_0: "generate fo ''base'' n (sconst 0) = Inr (board_z, sconst 0)"
proof -
  have "\<forall>c \<in> set (replicate (nat n) board_z). \<not> hard_ok c"
    using board_z_bad by (simp add: hard_ok_def)
  from generate_board_fallback [OF candidates_sconst_0 this]
  have "generate_board fo (CatanBoardGenerator ''base'') n (sconst 0) =
      generate_candidate_board (CatanBoardGenerator ''base'') (sconst 0)" .
  then show ?thesis
    by (simp only: generate_def sample_board_z)
qed

text \<open>
  C6. For each of the three profiles, every float arithmetic and every
  \<open>max_attempts\<close>: if none of the
  candidates sampled by the \<open>max_attempts\<close> iterations passes both hard checks, then
  \<open>generate\<close> raises nothing and returns the board of one more call of
  \<open>_generate_candidate_board\<close>, whatever that board is. The returned board can violate
  both hard checks: on the random source that is constantly 0 it does, for every
  \<open>max_attempts\<close>.
\<close>

theorem generate_board_fallback_path:
  "(name \<in> {''base'', ''5-6player'', ''custom''} \<and>
    candidates (CatanBoardGenerator name) (nat max_attempts) g = Inr (cs, g1) \<and>
    (\<forall>c \<in> set cs. \<not> (check_adjacent_high_numbers c \<and> check_desert_placement c)) \<longrightarrow>
    (\<exists>b g2. generate_candidate_board (CatanBoardGenerator name) g1 = Inr (b, g2) \<and>
            generate fo name max_attempts g = Inr (b, g2))) \<and>
   (\<forall>n. \<exists>b g2. generate fo ''base'' n (sconst 0) = Inr (b, g2) \<and>
      \<not> check_adjacent_high_numbers b \<and> \<not> check_desert_placement b)"
proof (intro conjI impI allI)
  assume a: "name \<in> {''base'', ''5-6player'', ''custom''} \<and>
    candidates (CatanBoardGenerator name) (nat max_attempts) g = Inr (cs, g1) \<and>
    (\<forall>c \<in> set cs. \<not> (check_adjacent_high_numbers c \<and> check_desert_placement c))"
  then have bad: "\<forall>c \<in> set cs. \<not> hard_ok c" by (simp add: hard_ok_def)
  from a have c: "candidates (CatanBoardGenerator name) (nat max_attempts) g = Inr (cs, g1)"
    by simp
  from a profile_sample_total [of name g1] obtain b g2 where
    s: "generate_candidate_board (CatanBoardGenerator name) g1 = Inr (b, g2)" by blast
  from generate_board_fallback [OF c bad] s
  show "\<exists>b g2. generate_candidate_board (CatanBoardGenerator name) g1 = Inr (b, g2) \<and>
            generate fo name max_attempts g = Inr (b, g2)"
    by (simp add: generate_def)
next
  fix n
  show "\<exists>b g2. generate fo ''base'' n (sconst 0) = Inr (b, g2) \<and>
      \<not> check_adjacent_high_numbers b \<and> \<not> check_desert_placement b"
    using generate_sconst_0 [of fo n] board_z_bad by blast
qed

theorem generate_board_fallback_path_witness:
  "\<exists>b g2. generate_candidate_board (CatanBoardGenerator ''base'') (sconst 0) = Inr (b, g2) \<and>
          generate exact_ops ''base'' 2 (sconst 0) = Inr (b, g2)"
proof -
  have c: "candidates (CatanBoardGenerator ''base'') (nat 2) (sconst 0) =
      Inr ([board_z, board_z], sconst 0)"
    using candidates_sconst_0 [of "nat 2"] by (simp only: nat_numeral numeral_2_eq_2 replicate_Suc replicate_0)
  have bad: "\<forall>c \<in> set [board_z, board_z].
      \<not> (check_adjacent_high_numbers c \<and> check_desert_placement c)"
    using board_z_bad by simp
  have n: "''base'' \<in> {''base'', ''5-6player'', ''custom''}" by simp
  from generate_board_fallback_path [of "''base''" 2 "sconst 0" "[board_z, board_z]" "sconst 0"
      exact_ops]
    n c bad
  show ?thesis by blast
qed

subsection \<open>Unknown profile names\<close>

text \<open>
  C7, as the code has it. For every name other than \<open>base\<close>, \<open>5-6player\<close> and
  \<open>custom\<close> the constructor leaves the terrain and number pools unset, and
  \<open>generate\<close> raises \<open>AttributeError\<close> at its first call of
  \<open>_generate_candidate_board\<close>; it never returns a board.
\<close>

theorem generate_unknown_name:
  "name \<notin> {''base'', ''5-6player'', ''custom''} \<Longrightarrow>
     terrains (CatanBoardGenerator name) = None \<and>
     numbers (CatanBoardGenerator name) = None \<and>
     generate fo name max_attempts g = Inl AttributeError"
  using generate_board_unconfigured [of "CatanBoardGenerator name" fo max_attempts g]
  by (simp add: unknown_name_unconfigured generate_def)

theorem generate_unknown_name_witness:
  "''five-six-player'' \<notin> {''base'', ''5-6player'', ''custom''} \<and>
   generate exact_ops ''five-six-player'' 1000 (sconst 0) = Inl AttributeError"
  using generate_unknown_name [of "''five-six-player''" exact_ops 1000 "sconst 0"] by simp

text \<open>
  The claim C7 as stated takes \<open>five-six-player\<close> for the name of the second profile.
  The code's name is \<open>5-6player\<close>: it is outside the set of the claim, and
  \<open>generate\<close> returns a board for it. For a name that neither set contains the
  failure is the \<open>AttributeError\<close> of the first sampling.
\<close>

theorem generate_unknown_name_counterexample:
  "''5-6player'' \<notin> {''base'', ''five-six-player'', ''custom''} \<and>
   \<not> isl (generate exact_ops ''5-6player'' 1000 (sconst 0)) \<and>
   generate exact_ops ''seafarers'' 1000 (sconst 0) = Inl AttributeError"
proof -
  have "''5-6player'' \<in> {''base'', ''5-6player'', ''custom''}" by simp
  then have "\<And>g. \<exists>b g'. generate_candidate_board (CatanBoardGenerator ''5-6player'') g = Inr (b, g')"
    by (rule profile_sample_total)
  from generate_board_total [OF this, of exact_ops 1000 "sconst 0"]
  have known: "\<not> isl (generate exact_ops ''5-6player'' 1000 (sconst 0))"
    by (auto simp: generate_def)
  have "''seafarers'' \<notin> {''base'', ''5-6player'', ''custom''}" by simp
  then have "terrains (CatanBoardGenerator ''seafarers'') = None"
    using unknown_name_unconfigured [of "''seafarers''"] by simp
  then have "generate exact_ops ''seafarers'' 1000 (sconst 0) = Inl AttributeError"
    unfolding generate_def by (rule generate_board_unconfigured)
  with known show ?thesis by simp
qed

section \<open>Positions outside the adjacency dictionary\<close>

lemma neighbors_range: "q \<in> neighbors b p \<Longrightarrow> p < 19 \<and> q < 19 \<and> q < length b"
  using adjacency_get_range [of "int q" "int p"] by (simp add: neighbors_def)

lemma neighbors_take: "neighbors (take 19 b) p = neighbors b p"
  using adjacency_get_range [of _ "int p"] by (fastforce simp: neighbors_def)

lemma same_terrain_neighbors_take:
  "p < 19 \<Longrightarrow> same_terrain_neighbors (take 19 b) p = same_terrain_neighbors b p"
proof -
  assume p: "p < 19"
  have "{q \<in> neighbors b p. terrain (take 19 b ! q) = terrain (take 19 b ! p)} =
        {q \<in> neighbors b p. terrain (b ! q) = terrain (b ! p)}"
    using p neighbors_range [of _ b p] by auto
  then show ?thesis by (simp add: same_terrain_neighbors_def neighbors_take)
qed

lemma same_terrain_neighbors_outside: "19 \<le> p \<Longrightarrow> same_terrain_neighbors b p = 0"
proof -
  assume "19 \<le> p"
  then have "neighbors b p = {}" using neighbors_range [of _ b p] by fastforce
  then show ?thesis by (simp add: same_terrain_neighbors_def)
qed

lemma spec_cluster_penalty_take: "spec_cluster_penalty (take 19 b) = spec_cluster_penalty b"
  unfolding spec_cluster_penalty_def
proof (rule sum.cong)
  show "{p. p < length (take 19 b) \<and> terrain (take 19 b ! p) \<noteq> ''Desert'' \<and>
          2 \<le> same_terrain_neighbors (take 19 b) p} =
        {p. p < length b \<and> terrain (b ! p) \<noteq> ''Desert'' \<and> 2 \<le> same_terrain_neighbors b p}"
    (is "?L = ?R")
  proof (intro equalityI subsetI)
    fix p assume "p \<in> ?L"
    then show "p \<in> ?R" by (auto simp: same_terrain_neighbors_take)
  next
    fix p assume p: "p \<in> ?R"
    then have "p < 19" using same_terrain_neighbors_outside [of p b] by (cases "p < 19") simp_all
    with p show "p \<in> ?L" by (auto simp: same_terrain_neighbors_take)
  qed
next
  fix p assume "p \<in> {p. p < length b \<and> terrain (b ! p) \<noteq> ''Desert'' \<and> 2 \<le> same_terrain_neighbors b p}"
  then have "p < 19" using same_terrain_neighbors_outside [of p b] by (cases "p < 19") simp_all
  then show "same_terrain_neighbors (take 19 b) p = same_terrain_neighbors b p"
    by (rule same_terrain_neighbors_take)
qed

lemma adjacent_high_pip_pairs_take:
  "adjacent_high_pip_pairs (take 19 b) = adjacent_high_pip_pairs b"
proof -
  have "{(p, q). p < length (take 19 b) \<and> q \<in> neighbors b p \<and>
          4 \<le> pip_weight (take 19 b) p \<and> 4 \<le> pip_weight (take 19 b) q} =
        {(p, q). p < length b \<and> q \<in> neighbors b p \<and> 4 \<le> pip_weight b p \<and> 4 \<le> pip_weight b q}"
    using neighbors_range [of _ b] by (auto simp: pip_weight_def)
  then show ?thesis by (simp add: adjacent_high_pip_pairs_def neighbors_take)
qed

lemma check_adjacent_high_numbers_in_range:
  "check_adjacent_high_numbers (filter (\<lambda>h. position h \<in> {0..18}) b) =
     check_adjacent_high_numbers b"
proof -
  let ?H = "set (high_value_positions b)"
  have H: "set (high_value_positions (filter (\<lambda>h. position h \<in> {0..18}) b)) = ?H \<inter> {0..18}"
    unfolding set_high_value_positions by auto
  have "(\<exists>pos \<in> ?H \<inter> {0..18}. \<exists>adj_pos \<in> set (adjacency_get pos). adj_pos \<in> ?H \<inter> {0..18}) \<longleftrightarrow>
        (\<exists>pos \<in> ?H. \<exists>adj_pos \<in> set (adjacency_get pos). adj_pos \<in> ?H)"
    using adjacency_get_range by fastforce
  then show ?thesis
    by (simp only: check_adjacent_high_numbers_def high_numbers_loop_iff H)
qed

lemma check_desert_placement_in_range:
  "check_desert_placement (filter (\<lambda>h. position h \<in> {0..18}) b) = check_desert_placement b"
  unfolding check_desert_placement_iff_edge
  by (auto simp: edge_positions_def)

text \<open>
  C10. The adjacency lookup returns the empty list for every position outside 0..18.
  Hence on any board, a 30-hex board included, positions 19 and above are isolated:
  both hard checks give the same answer when the hexes whose position is outside 0..18
  are removed, and the cluster and pip adjacency penalties are those of the first 19
  hexes of the board.
\<close>

theorem outside_positions_isolated:
  "(\<forall>p. p \<notin> {0..18} \<longrightarrow> adjacency_get p = []) \<and>
   check_adjacent_high_numbers b =
     check_adjacent_high_numbers (filter (\<lambda>h. position h \<in> {0..18}) b) \<and>
   check_desert_placement b =
     check_desert_placement (filter (\<lambda>h. position h \<in> {0..18}) b) \<and>
   score_terrain_clustering b = score_terrain_clustering (take 19 b) \<and>
   score_pip_adjacency fo b = score_pip_adjacency fo (take 19 b)"
proof (intro conjI allI impI)
  fix p :: int
  assume "p \<notin> {0..18}"
  then have "p < 0 \<or> 18 < p" by auto
  then show "adjacency_get p = []" by (rule adjacency_get_outside)
next
  show "check_adjacent_high_numbers b =
     check_adjacent_high_numbers (filter (\<lambda>h. position h \<in> {0..18}) b)"
    by (rule check_adjacent_high_numbers_in_range [symmetric])
next
  show "check_desert_placement b =
     check_desert_placement (filter (\<lambda>h. position h \<in> {0..18}) b)"
    by (rule check_desert_placement_in_range [symmetric])
next
  show "score_terrain_clustering b = score_terrain_clustering (take 19 b)"
    by (simp only: score_terrain_clustering_spec spec_cluster_penalty_take)
next
  show "score_pip_adjacency fo b = score_pip_adjacency fo (take 19 b)"
    by (simp only: score_pip_adjacency_def pip_adjacency_count_spec adjacent_high_pip_pairs_take)
qed

theorem outside_positions_isolated_witness:
  "adjacency_get 19 = [] \<and> check_adjacent_high_numbers board_o \<and>
   check_desert_placement board_o"
proof -
  from outside_positions_isolated [of board_o exact_ops] have
    a: "\<forall>p. p \<notin> {0..18} \<longrightarrow> adjacency_get p = []" and
    h: "check_adjacent_high_numbers board_o =
          check_adjacent_high_numbers (filter (\<lambda>h. position h \<in> {0..18}) board_o)" and
    d: "check_desert_placement board_o =
          check_desert_placement (filter (\<lambda>h. position h \<in> {0..18}) board_o)"
    by blast+
  have "(19::int) \<notin> {0..18}" by simp
  with a have "adjacency_get 19 = []" by blast
  moreover have "filter (\<lambda>h. position h \<in> {0..18}) board_o = []"
    by (simp add: board_o_def)
  moreover have "check_adjacent_high_numbers []"
    by (simp add: check_adjacent_high_numbers_def high_value_positions_def)
  ultimately show ?thesis using h d by simp
qed

end
